theory Spec2Isabelle
  imports Complex_Main "HOL-Library.Multiset"
begin

section \<open>Strings of the source language\<close>

text \<open>
  The program is TypeScript (\<^verbatim>\<open>src/teacher-score-web/src/App.tsx\<close>). Its strings are
  sequences of UTF-16 code units; the role names of the table are Chinese, so a string is
  modelled as the list of its code units. Numbers of the source are IEEE doubles; they
  are modelled as exact rationals (no rounding error of the floating-point operations
  is modelled, only the explicit rounding of \<^verbatim>\<open>toFixed(4)\<close>). A double sum such as
  \<^verbatim>\<open>score += allowable\<close> can differ from the exact sum in its last bits. The
  statements below are therefore bounds that leave the tolerance of 1e-6 free, statements
  about the structure of a month, and closed runs.
\<close>

type_synonym jsstring = "nat list"

definition ascii :: "string \<Rightarrow> jsstring" where
  "ascii s = map of_char s"

definition QUOTE :: nat where "QUOTE = 34"
definition COMMA :: nat where "COMMA = 44"
definition DASH :: nat where "DASH = 45"
definition LF :: nat where "LF = 10"
definition CR :: nat where "CR = 13"

definition is_digit :: "nat \<Rightarrow> bool" where
  \<comment> \<open>the class \<^verbatim>\<open>\d\<close>: ASCII 0 to 9\<close>
  "is_digit c = (48 \<le> c \<and> c \<le> 57)"

definition is_space :: "nat \<Rightarrow> bool" where
  \<comment> \<open>the class \<^verbatim>\<open>\s\<close>, also what \<^verbatim>\<open>trim\<close> strips: WhiteSpace and LineTerminator\<close>
  "is_space c = (c \<in> set [9, 10, 11, 12, 13, 32, 160, 5760, 8232, 8233, 8239, 8287, 12288, 65279]
                 \<or> (8192 \<le> c \<and> c \<le> 8202))"

definition is_dot :: "nat \<Rightarrow> bool" where
  \<comment> \<open>the class \<^verbatim>\<open>.\<close>: every code unit but the four line terminators\<close>
  "is_dot c = (c \<notin> set [10, 13, 8232, 8233])"

fun split_lines :: "jsstring \<Rightarrow> jsstring list" where
  \<comment> \<open>\<^verbatim>\<open>csvText.split(/\r?\n/)\<close>\<close>
  "split_lines [] = [[]]"
| "split_lines (c # cs) =
     (if c = LF then [] # split_lines cs
      else if c = CR \<and> take 1 cs = [LF] then [] # split_lines (drop 1 cs)
      else (case split_lines cs of
              [] \<Rightarrow> [[c]]
            | l # ls \<Rightarrow> (c # l) # ls))"

definition trim :: "jsstring \<Rightarrow> jsstring" where
  "trim s = rev (dropWhile is_space (rev (dropWhile is_space s)))"

definition record_lines :: "jsstring \<Rightarrow> jsstring list" where
  \<comment> \<open>line 42: \<^verbatim>\<open>csvText.split(/\r?\n/).map(l => l.trim()).filter(Boolean)\<close>\<close>
  "record_lines csvText = filter (\<lambda>l. l \<noteq> []) (map trim (split_lines csvText))"

fun js_less :: "jsstring \<Rightarrow> jsstring \<Rightarrow> bool" where
  \<comment> \<open>the operator \<^verbatim>\<open><\<close> on two strings: lexicographic on code units\<close>
  "js_less [] [] = False"
| "js_less [] (y # ys) = True"
| "js_less (x # xs) [] = False"
| "js_less (x # xs) (y # ys) = (x < y \<or> (x = y \<and> js_less xs ys))"

section \<open>The line pattern\<close>

text \<open>
  Line 44 matches each line against
  \<^verbatim>\<open>/"?(.*?)"?,\s*"?(\d{4}-\d{2}-\d{2})"?,\s*"?(\d{4}-\d{2}-\d{2})"?/\<close>.
  The pattern is not anchored: the match starts at the first position from which the
  whole pattern can match. After the lazy group \<^verbatim>\<open>(.*?)\<close> the rest of the pattern has
  only one way to match from a given position (a quote, a blank or a digit is never also
  the next thing wanted), so the rest is a function of the position.
\<close>

definition opt_quote :: "jsstring \<Rightarrow> jsstring" where
  \<comment> \<open>\<^verbatim>\<open>"?\<close> followed by something that is not a quote\<close>
  "opt_quote xs = (case xs of [] \<Rightarrow> [] | c # cs \<Rightarrow> if c = QUOTE then cs else xs)"

definition expect_comma :: "jsstring \<Rightarrow> jsstring option" where
  "expect_comma xs = (case xs of [] \<Rightarrow> None | c # cs \<Rightarrow> if c = COMMA then Some cs else None)"

definition is_date :: "jsstring \<Rightarrow> bool" where
  \<comment> \<open>\<^verbatim>\<open>\d{4}-\d{2}-\d{2}\<close> on exactly ten code units\<close>
  "is_date d = (case d of
       [y1, y2, y3, y4, s1, m1, m2, s2, d1, d2] \<Rightarrow>
          is_digit y1 \<and> is_digit y2 \<and> is_digit y3 \<and> is_digit y4 \<and> s1 = DASH \<and>
          is_digit m1 \<and> is_digit m2 \<and> s2 = DASH \<and> is_digit d1 \<and> is_digit d2
     | _ \<Rightarrow> False)"

definition expect_date :: "jsstring \<Rightarrow> (jsstring \<times> jsstring) option" where
  "expect_date xs = (if is_date (take 10 xs) then Some (take 10 xs, drop 10 xs) else None)"

definition match_tail :: "jsstring \<Rightarrow> (jsstring \<times> jsstring) option" where
  \<comment> \<open>\<^verbatim>\<open>"?,\s*"?(date)"?,\s*"?(date)"?\<close> from the head of \<open>xs\<close>: the two dates\<close>
  "match_tail xs =
     (case expect_comma (opt_quote xs) of
        None \<Rightarrow> None
      | Some r1 \<Rightarrow>
         (case expect_date (opt_quote (dropWhile is_space r1)) of
            None \<Rightarrow> None
          | Some (start, r2) \<Rightarrow>
             (case expect_comma (opt_quote r2) of
                None \<Rightarrow> None
              | Some r3 \<Rightarrow>
                 (case expect_date (opt_quote (dropWhile is_space r3)) of
                    None \<Rightarrow> None
                  | Some (end, r4) \<Rightarrow> Some (start, end)))))"

fun match_lazy :: "jsstring \<Rightarrow> (jsstring \<times> jsstring \<times> jsstring) option" where
  \<comment> \<open>\<^verbatim>\<open>(.*?)\<close> then the rest: the shortest role text first\<close>
  "match_lazy [] = None"
| "match_lazy (c # cs) =
     (case match_tail (c # cs) of
        Some (start, end) \<Rightarrow> Some ([], start, end)
      | None \<Rightarrow>
         (if is_dot c
          then (case match_lazy cs of
                  None \<Rightarrow> None
                | Some (role, start, end) \<Rightarrow> Some (c # role, start, end))
          else None))"

definition match_at :: "jsstring \<Rightarrow> (jsstring \<times> jsstring \<times> jsstring) option" where
  \<comment> \<open>the whole pattern from one start position: the leading \<^verbatim>\<open>"?\<close> is greedy, and
      gives the quote back when nothing matches after it\<close>
  "match_at xs =
     (case (case xs of [] \<Rightarrow> None | c # cs \<Rightarrow> if c = QUOTE then match_lazy cs else None) of
        Some m \<Rightarrow> Some m
      | None \<Rightarrow> match_lazy xs)"

fun match_line :: "jsstring \<Rightarrow> (jsstring \<times> jsstring \<times> jsstring) option" where
  \<comment> \<open>\<^verbatim>\<open>line.match(...)\<close>: the groups (role, start, end) of the leftmost match\<close>
  "match_line [] = None"
| "match_line (c # cs) =
     (case match_at (c # cs) of
        Some m \<Rightarrow> Some m
      | None \<Rightarrow> match_line cs)"

section \<open>The role table\<close>

datatype RoleKey = CLASS | VICE | GRADE | SUBJECT | PREP | MID | DEPT

definition role_keys :: "RoleKey list" where
  \<comment> \<open>\<^verbatim>\<open>Object.keys(ROLE_INFO)\<close>, in the order of the object literal (lines 9 to 15)\<close>
  "role_keys = [CLASS, VICE, GRADE, SUBJECT, PREP, MID, DEPT]"

fun role_name :: "RoleKey \<Rightarrow> jsstring" where
  \<comment> \<open>the key of each entry of \<^verbatim>\<open>ROLE_INFO\<close>, as UTF-16 code units\<close>
  "role_name CLASS = [0x73ED, 0x4E3B, 0x4EFB]"
| "role_name VICE = [0x526F, 0x73ED, 0x4E3B, 0x4EFB]"
| "role_name GRADE = [0x5E74, 0x7EA7, 0x7EC4, 0x957F]"
| "role_name SUBJECT = [0x79D1, 0x7EC4, 0x957F]"
| "role_name PREP = [0x5907, 0x8BFE, 0x7EC4, 0x957F]"
| "role_name MID = [0x4E2D, 0x5C42, 0x5E72, 0x90E8]"
| "role_name DEPT = [0x5B66, 0x79D1, 0x4E3B, 0x4EFB]"

fun caps :: "RoleKey \<Rightarrow> rat" where
  "caps CLASS = 15"
| "caps VICE = 15"
| "caps GRADE = 15"
| "caps SUBJECT = 15"
| "caps PREP = 8"
| "caps MID = 20"
| "caps DEPT = 15"

fun baselines :: "RoleKey \<Rightarrow> rat list" where
  "baselines CLASS = [1, 3 / 2]"
| "baselines VICE = [1 / 2, 3 / 4]"
| "baselines GRADE = [1, 3 / 2]"
| "baselines SUBJECT = [1, 3 / 2]"
| "baselines PREP = [1 / 2]"
| "baselines MID = [6 / 5, 3 / 2]"
| "baselines DEPT = [1, 3 / 2]"

definition WEIGHTS :: "rat list" where
  "WEIGHTS = [1, 1 / 2, 1 / 4, 1 / 8, 1 / 16]"

definition CLASS_VICE_COMBO_CAP :: rat where
  "CLASS_VICE_COMBO_CAP = 15"

definition own_key :: "jsstring \<Rightarrow> RoleKey option" where
  \<comment> \<open>the entry of the table whose key is the string, when there is one\<close>
  "own_key r = find (\<lambda>k. role_name k = r) role_keys"

definition inherited_key :: "jsstring \<Rightarrow> bool" where
  \<comment> \<open>\<^verbatim>\<open>ROLE_INFO\<close> is an object literal, so \<^verbatim>\<open>ROLE_INFO[role]\<close> also finds the
      properties of \<^verbatim>\<open>Object.prototype\<close>; each of them is a truthy value\<close>
  "inherited_key r = (r \<in> set (map ascii
     [''constructor'', ''toString'', ''toLocaleString'', ''valueOf'', ''hasOwnProperty'',
      ''isPrototypeOf'', ''propertyIsEnumerable'', ''__proto__'', ''__defineGetter__'',
      ''__defineSetter__'', ''__lookupGetter__'', ''__lookupSetter__'']))"

section \<open>Parsing the records\<close>

datatype error =
    CsvFormatError nat jsstring   \<comment> \<open>line 45: the line number and the line\<close>
  | UnknownRoleError jsstring     \<comment> \<open>line 47: the role text\<close>
  | DateOrderError jsstring       \<comment> \<open>line 48: the role text\<close>
  | TypeError                     \<comment> \<open>a property of \<^verbatim>\<open>undefined\<close> is read (line 70)\<close>

record RoleEntry =
  e_role :: jsstring
  e_start :: jsstring
  e_end :: jsstring

definition parse_line :: "nat \<Rightarrow> jsstring \<Rightarrow> error + RoleEntry" where
  \<comment> \<open>the callback of \<^verbatim>\<open>lines.map\<close>, lines 43 to 50\<close>
  "parse_line idx line =
     (case match_line line of
        None \<Rightarrow> Inl (CsvFormatError (idx + 1) line)
      | Some (role, start, end) \<Rightarrow>
          if own_key role = None \<and> \<not> inherited_key role then Inl (UnknownRoleError role)
          else if js_less end start then Inl (DateOrderError role)
          else Inr \<lparr>e_role = role, e_start = start, e_end = end\<rparr>)"

fun parse_entries :: "nat \<Rightarrow> jsstring list \<Rightarrow> error + RoleEntry list" where
  \<comment> \<open>\<^verbatim>\<open>lines.map((line, idx) => ...)\<close> from index \<open>idx\<close> on: the first throw ends it\<close>
  "parse_entries idx [] = Inr []"
| "parse_entries idx (line # rest) =
     (case parse_line idx line of
        Inl err \<Rightarrow> Inl err
      | Inr entry \<Rightarrow>
         (case parse_entries (Suc idx) rest of
            Inl err \<Rightarrow> Inl err
          | Inr entries \<Rightarrow> Inr (entry # entries)))"

section \<open>Month indices\<close>

fun split_dash :: "jsstring \<Rightarrow> jsstring list" where
  \<comment> \<open>\<^verbatim>\<open>dateStr.split("-")\<close>\<close>
  "split_dash [] = [[]]"
| "split_dash (c # cs) =
     (if c = DASH then [] # split_dash cs
      else (case split_dash cs of
              [] \<Rightarrow> [[c]]
            | p # ps \<Rightarrow> (c # p) # ps))"

definition Number :: "jsstring \<Rightarrow> int" where
  \<comment> \<open>\<^verbatim>\<open>Number\<close> on a string of ASCII digits, the only strings it is given here\<close>
  "Number s = foldl (\<lambda>a c. 10 * a + (int c - 48)) 0 s"

definition ymToIndex :: "jsstring \<Rightarrow> int" where
  \<comment> \<open>lines 23 to 26; every date string that reaches it matched
      \<^verbatim>\<open>\d{4}-\d{2}-\d{2}\<close>, so the split has three parts of digits\<close>
  "ymToIndex dateStr =
     (let parts = map Number (split_dash dateStr); y = parts ! 0; m = parts ! 1
      in y * 12 + (m - 1))"

definition js_rem :: "int \<Rightarrow> int \<Rightarrow> int" where
  \<comment> \<open>the operator \<^verbatim>\<open>%\<close> with a positive divisor: the sign of the dividend\<close>
  "js_rem a b = (if a < 0 then - ((- a) mod b) else a mod b)"

fun digits_of :: "nat \<Rightarrow> jsstring" where
  "digits_of n = (if n < 10 then [48 + n] else digits_of (n div 10) @ [48 + n mod 10])"

definition String_of :: "int \<Rightarrow> jsstring" where
  "String_of i = (if i < 0 then DASH # digits_of (nat (- i)) else digits_of (nat i))"

definition padStart2 :: "jsstring \<Rightarrow> jsstring" where
  \<comment> \<open>\<^verbatim>\<open>padStart(2, "0")\<close>\<close>
  "padStart2 s = replicate (2 - length s) 48 @ s"

definition indexToYM :: "int \<Rightarrow> jsstring" where
  \<comment> \<open>lines 28 to 32; \<^verbatim>\<open>Math.floor(index / 12)\<close> is \<open>div\<close> on \<open>int\<close>\<close>
  "indexToYM index =
     (let y = index div 12; m = js_rem index 12 + 1
      in String_of y @ [DASH] @ padStart2 (String_of m))"

definition month_range :: "RoleEntry list \<Rightarrow> int list" where
  \<comment> \<open>lines 52 to 54 and the loop header of line 59: the indices \<open>minYM + i\<close> for
      \<open>0 \<le> i < monthsTotal\<close>. With no entry, \<^verbatim>\<open>Math.min()\<close> is \<open>Infinity\<close> and
      \<^verbatim>\<open>Math.max()\<close> is \<open>-Infinity\<close>, \<open>monthsTotal\<close> is \<open>-Infinity\<close> and the body never runs.\<close>
  "month_range entries =
     (case entries of
        [] \<Rightarrow> []
      | e # es \<Rightarrow>
          [fold min (map (\<lambda>e. ymToIndex (e_start e)) es) (ymToIndex (e_start e)) ..
           fold max (map (\<lambda>e. ymToIndex (e_end e)) es) (ymToIndex (e_end e))])"

section \<open>The month-by-month walk\<close>

record RoleState =
  score :: rat
  monthsServed :: int
  capped :: bool

type_synonym RoleStates = "RoleKey \<Rightarrow> RoleState"

record MonthAllocation =
  a_role :: RoleKey
  weight :: rat
  gain :: rat

record MonthDetail =
  ym :: jsstring
  allocations :: "MonthAllocation list"

record Candidate =
  c_role :: RoleKey
  baselinePerMonth :: rat
  remainingCap :: rat

definition toFixed4 :: "rat \<Rightarrow> rat" where
  \<comment> \<open>\<^verbatim>\<open>+x.toFixed(4)\<close>: the nearest multiple of 1/10000, a tie going away from zero\<close>
  "toFixed4 x =
     (if x < 0 then - (of_int \<lfloor>- x * 10000 + 1 / 2\<rfloor> / 10000)
      else of_int \<lfloor>x * 10000 + 1 / 2\<rfloor> / 10000)"

definition init_state :: RoleStates where
  \<comment> \<open>line 56\<close>
  "init_state = (\<lambda>r. \<lparr>score = 0, monthsServed = 0, capped = False\<rparr>)"

definition covers :: "int \<Rightarrow> RoleEntry \<Rightarrow> bool" where
  "covers ymIdx e = (ymIdx \<ge> ymToIndex (e_start e) \<and> ymIdx \<le> ymToIndex (e_end e))"

definition capped_flag :: "RoleStates \<Rightarrow> jsstring \<Rightarrow> bool" where
  \<comment> \<open>\<^verbatim>\<open>roleState[r].capped\<close> as a condition: for a key inherited from
      \<^verbatim>\<open>Object.prototype\<close> the property is \<^verbatim>\<open>undefined\<close>, which is falsy\<close>
  "capped_flag roleState r = (case own_key r of None \<Rightarrow> False | Some k \<Rightarrow> capped (roleState k))"

definition activeRoles :: "RoleEntry list \<Rightarrow> RoleStates \<Rightarrow> int \<Rightarrow> jsstring list" where
  \<comment> \<open>line 62: one element for each covering entry, in input order\<close>
  "activeRoles entries roleState ymIdx =
     filter (\<lambda>r. \<not> capped_flag roleState r) (map e_role (filter (covers ymIdx) entries))"

fun serve :: "RoleKey list \<Rightarrow> RoleStates \<Rightarrow> RoleStates" where
  \<comment> \<open>line 65: \<^verbatim>\<open>activeRoles.forEach(r => { roleState[r].monthsServed += 1; })\<close>\<close>
  "serve [] roleState = roleState"
| "serve (r # rs) roleState =
     serve rs (roleState(r := (roleState r)\<lparr>monthsServed := monthsServed (roleState r) + 1\<rparr>))"

definition candidate :: "RoleStates \<Rightarrow> RoleKey \<Rightarrow> Candidate" where
  \<comment> \<open>the callback of line 67, lines 68 to 71\<close>
  "candidate roleState role =
     (let monthsSrv = monthsServed (roleState role) - 1;
          baseline = baselines role ! (if monthsSrv \<ge> 72 \<and> length (baselines role) > 1 then 1 else 0)
      in \<lparr>c_role = role, baselinePerMonth = baseline / 12,
          remainingCap = caps role - score (roleState role) + 1 / 1000000000\<rparr>)"

definition compare :: "Candidate \<Rightarrow> Candidate \<Rightarrow> rat" where
  \<comment> \<open>the comparator of line 74: negative when \<open>a\<close> goes first\<close>
  "compare a b =
     (if baselinePerMonth b - baselinePerMonth a \<noteq> 0 then baselinePerMonth b - baselinePerMonth a
      else remainingCap b - remainingCap a)"

fun insert_sorted :: "Candidate \<Rightarrow> Candidate list \<Rightarrow> Candidate list" where
  "insert_sorted a [] = [a]"
| "insert_sorted a (b # bs) = (if compare a b \<le> 0 then a # b # bs else b # insert_sorted a bs)"

fun sort_candidates :: "Candidate list \<Rightarrow> Candidate list" where
  \<comment> \<open>\<^verbatim>\<open>candidates.sort(...)\<close>: the sort of the language is stable, and the comparator
      is a total preorder, so the result is that of a stable insertion sort\<close>
  "sort_candidates [] = []"
| "sort_candidates (a # as) = insert_sorted a (sort_candidates as)"

definition linked :: "RoleKey \<Rightarrow> bool" where
  \<comment> \<open>the condition of lines 82 and 92\<close>
  "linked role = (role = CLASS \<or> role = VICE)"

definition allowable :: "RoleStates \<Rightarrow> RoleKey \<Rightarrow> rat \<Rightarrow> rat" where
  \<comment> \<open>lines 82 to 89: the amount credited for the raw gain \<open>gain0\<close>\<close>
  "allowable roleState role gain0 =
     (let gain =
        (if linked role
         then (let comboUsed = score (roleState CLASS) + score (roleState VICE);
                   remainingCombo = CLASS_VICE_COMBO_CAP - comboUsed
               in if remainingCombo \<le> 0 then 0 else min gain0 remainingCombo)
         else gain0)
      in min gain (caps role - score (roleState role)))"

definition credit :: "RoleStates \<Rightarrow> RoleKey \<Rightarrow> rat \<Rightarrow> RoleStates" where
  \<comment> \<open>lines 90 to 102: add to the score, then set the capped flags\<close>
  "credit roleState role amount =
     (let st1 = roleState(role := (roleState role)\<lparr>score := score (roleState role) + amount\<rparr>);
          st2 = (if linked role \<and>
                    score (st1 CLASS) + score (st1 VICE) \<ge> CLASS_VICE_COMBO_CAP - 1 / 1000000
                 then st1(CLASS := (st1 CLASS)\<lparr>capped := True\<rparr>,
                          VICE := (st1 VICE)\<lparr>capped := True\<rparr>)
                 else st1)
      in if score (st2 role) \<ge> caps role - 1 / 1000000
         then st2(role := (st2 role)\<lparr>capped := True\<rparr>)
         else st2)"

definition allocate_one :: "Candidate \<Rightarrow> rat \<Rightarrow> RoleStates \<Rightarrow> RoleStates \<times> MonthAllocation" where
  \<comment> \<open>the body of the loop of line 77, lines 78 to 104\<close>
  "allocate_one c w roleState =
     (let role = c_role c;
          amount = allowable roleState role (baselinePerMonth c * w)
      in (credit roleState role amount,
          \<lparr>a_role = role, weight = w, gain = toFixed4 amount\<rparr>))"

fun allocate :: "rat list \<Rightarrow> Candidate list \<Rightarrow> RoleStates \<Rightarrow> RoleStates \<times> MonthAllocation list" where
  \<comment> \<open>the loop of line 77: one step for each rank that has both a weight and a candidate\<close>
  "allocate (w # ws) (c # cs) roleState =
     (let (st1, a) = allocate_one c w roleState;
          (st2, as) = allocate ws cs st1
      in (st2, a # as))"
| "allocate ws cs roleState = (roleState, [])"

definition month_step ::
  "RoleEntry list \<Rightarrow> int \<Rightarrow> RoleStates \<times> MonthDetail list \<Rightarrow> error + RoleStates \<times> MonthDetail list" where
  \<comment> \<open>the body of the loop of line 59. A role text that is only an inherited key has no
      \<^verbatim>\<open>baselines\<close>: reading an element of it at line 70 throws.\<close>
  "month_step entries ymIdx sd =
     (let (roleState, monthDetails) = sd;
          active = activeRoles entries roleState ymIdx
      in if active = [] then Inr (roleState, monthDetails)
         else (case those (map own_key active) of
                 None \<Rightarrow> Inl TypeError
               | Some roles \<Rightarrow>
                  (let st1 = serve roles roleState;
                       candidates = sort_candidates (map (candidate st1) roles);
                       (st2, allocs) = allocate WEIGHTS candidates st1
                   in Inr (st2, monthDetails @ [\<lparr>ym = indexToYM ymIdx, allocations = allocs\<rparr>]))))"

fun run_months ::
  "RoleEntry list \<Rightarrow> int list \<Rightarrow> RoleStates \<times> MonthDetail list \<Rightarrow> error + RoleStates \<times> MonthDetail list" where
  \<comment> \<open>the loop of line 59 over the month indices still to visit\<close>
  "run_months entries [] sd = Inr sd"
| "run_months entries (ymIdx # rest) sd =
     (case month_step entries ymIdx sd of
        Inl err \<Rightarrow> Inl err
      | Inr sd1 \<Rightarrow> run_months entries rest sd1)"

section \<open>The result\<close>

record RoleSummary =
  s_role :: RoleKey
  s_score :: rat
  s_cap :: rat
  s_capped :: bool

record CalculationResult =
  roleSummary :: "RoleSummary list"
  totalScore :: rat
  monthDetails :: "MonthDetail list"

definition summarise :: "RoleStates \<Rightarrow> RoleSummary list" where
  \<comment> \<open>line 109\<close>
  "summarise roleState =
     map (\<lambda>r. \<lparr>s_role = r, s_score = toFixed4 (score (roleState r)), s_cap = caps r,
               s_capped = capped (roleState r)\<rparr>) role_keys"

definition total_of :: "RoleSummary list \<Rightarrow> rat" where
  \<comment> \<open>line 110: \<^verbatim>\<open>+roleSummary.reduce((s,r)=>s+r.score,0).toFixed(4)\<close>\<close>
  "total_of summary = toFixed4 (foldl (\<lambda>s r. s + s_score r) 0 summary)"

definition walk :: "jsstring \<Rightarrow> error + RoleStates \<times> MonthDetail list" where
  \<comment> \<open>lines 42 to 107: the running state and the trace when the loop ends\<close>
  "walk csvText =
     (case parse_entries 0 (record_lines csvText) of
        Inl err \<Rightarrow> Inl err
      | Inr entries \<Rightarrow> run_months entries (month_range entries) (init_state, []))"

definition calculate :: "jsstring \<Rightarrow> error + CalculationResult" where
  "calculate csvText =
     (case walk csvText of
        Inl err \<Rightarrow> Inl err
      | Inr (roleState, details) \<Rightarrow>
          Inr \<lparr>roleSummary = summarise roleState,
               totalScore = total_of (summarise roleState),
               monthDetails = details\<rparr>)"

section \<open>Observations on a run\<close>

definition final_state :: "jsstring \<Rightarrow> RoleKey \<Rightarrow> error + RoleState" where
  \<comment> \<open>the running state of one role when the loop of line 59 has ended\<close>
  "final_state csvText r =
     (case walk csvText of
        Inl err \<Rightarrow> Inl err
      | Inr (roleState, details) \<Rightarrow> Inr (roleState r))"

definition reported_scores :: "jsstring \<Rightarrow> error + rat list" where
  \<comment> \<open>the scores of the Role Summaries of the result, in the order of the table\<close>
  "reported_scores csvText =
     (case calculate csvText of
        Inl err \<Rightarrow> Inl err
      | Inr res \<Rightarrow> Inr (map s_score (roleSummary res)))"

definition allocation_trace :: "jsstring \<Rightarrow> error + MonthAllocation list list" where
  \<comment> \<open>the allocation events of the processed months, month by month\<close>
  "allocation_trace csvText =
     (case walk csvText of
        Inl err \<Rightarrow> Inl err
      | Inr (roleState, details) \<Rightarrow> Inr (map allocations details))"

definition in_range :: "RoleStates \<Rightarrow> bool" where
  "in_range st = (\<forall>r. 0 \<le> score (st r) \<and> score (st r) \<le> caps r)"

section \<open>Example inputs\<close>

definition scenario1 :: jsstring where
  \<comment> \<open>the record of Scenario 1, the three fields in double quotes\<close>
  "scenario1 = ascii ''\"'' @ role_name CLASS @ ascii ''\",\"2020-01-01\",\"2020-01-31\"''"


definition long_service :: jsstring where
  \<comment> \<open>VICE from January 2000 to January 2006, then CLASS from January 2003 to June 2013\<close>
  "long_service = role_name VICE @ ascii '',2000-01-01,2006-01-31'' @ [LF] @
                  role_name CLASS @ ascii '',2003-01-01,2013-06-30''"

definition long_entries :: "RoleEntry list" where
  \<comment> \<open>the records of \<open>long_service\<close>\<close>
  "long_entries =
     [\<lparr>e_role = role_name VICE, e_start = ascii ''2000-01-01'', e_end = ascii ''2006-01-31''\<rparr>,
      \<lparr>e_role = role_name CLASS, e_start = ascii ''2003-01-01'', e_end = ascii ''2013-06-30''\<rparr>]"

definition tier_overlap :: jsstring where
  \<comment> \<open>CLASS from January 2020 to December 2025, and a second record of CLASS for
      December 2025 alone\<close>
  "tier_overlap = role_name CLASS @ ascii '',2020-01-01,2025-12-31'' @ [LF] @
                  role_name CLASS @ ascii '',2025-12-01,2025-12-31''"

definition tier_entries :: "RoleEntry list" where
  \<comment> \<open>the records of \<open>tier_overlap\<close>\<close>
  "tier_entries =
     [\<lparr>e_role = role_name CLASS, e_start = ascii ''2020-01-01'', e_end = ascii ''2025-12-31''\<rparr>,
      \<lparr>e_role = role_name CLASS, e_start = ascii ''2025-12-01'', e_end = ascii ''2025-12-31''\<rparr>]"

section \<open>Evaluation on concrete inputs\<close>

lemma floor_rat_numeral:
  "\<lfloor>(numeral a :: rat) / numeral b\<rfloor> = numeral a div numeral b"
  "\<lfloor>(1 :: rat) / numeral b\<rfloor> = 1 div numeral b"
   apply (metis floor_divide_of_int_eq of_int_numeral)
  apply (metis floor_divide_of_int_eq of_int_numeral of_int_1)
  done

lemmas text_defs = ascii_def QUOTE_def COMMA_def DASH_def LF_def CR_def is_digit_def
  is_space_def is_dot_def trim_def record_lines_def

lemmas parse_defs = opt_quote_def expect_comma_def is_date_def expect_date_def match_tail_def
  match_at_def role_keys_def own_key_def inherited_key_def parse_line_def

lemmas month_defs = Number_def ymToIndex_def js_rem_def String_of_def padStart2_def
  indexToYM_def month_range_def covers_def capped_flag_def activeRoles_def role_keys_def
  own_key_def

lemmas alloc_defs = WEIGHTS_def CLASS_VICE_COMBO_CAP_def toFixed4_def floor_rat_numeral
  init_state_def candidate_def compare_def linked_def allowable_def credit_def
  allocate_one_def Let_def

lemmas result_defs = summarise_def total_of_def role_keys_def toFixed4_def floor_rat_numeral

lemma walk_eval:
  assumes "record_lines csvText = ls" and "parse_entries 0 ls = Inr entries"
    and "month_range entries = ms"
  shows "walk csvText = run_months entries ms (init_state, [])"
  using assms by (simp add: walk_def)

lemma calculate_eval:
  assumes "walk csvText = Inr (st, ds)"
  shows "calculate csvText =
           Inr \<lparr>roleSummary = summarise st, totalScore = total_of (summarise st), monthDetails = ds\<rparr>"
  using assms by (simp add: calculate_def)

lemma month_step_skip:
  "activeRoles entries st ymIdx = [] \<Longrightarrow> month_step entries ymIdx (st, ds) = Inr (st, ds)"
  by (simp add: month_step_def)

lemma month_step_alloc:
  assumes "activeRoles entries st ymIdx = active" and "active \<noteq> []"
    and "those (map own_key active) = Some roles"
    and "allocate WEIGHTS (sort_candidates (map (candidate (serve roles st)) roles)) (serve roles st)
           = (st2, allocs)"
  shows "month_step entries ymIdx (st, ds) =
           Inr (st2, ds @ [\<lparr>ym = indexToYM ymIdx, allocations = allocs\<rparr>])"
  using assms by (simp add: month_step_def)

lemmas walk_defs = walk_def month_step_def text_defs parse_defs month_defs alloc_defs

lemma walk_scenario1:
  "walk scenario1 =
     Inr (init_state(CLASS := \<lparr>score = 1 / 12, monthsServed = 1, capped = False\<rparr>),
          [\<lparr>ym = ascii ''2020-01'',
            allocations = [\<lparr>a_role = CLASS, weight = 1, gain = 833 / 10000\<rparr>]\<rparr>])"
  by (simp add: scenario1_def walk_defs)

section \<open>Runs over many months\<close>

text \<open>
  A run over a range of months in which every month does the same thing is evaluated by
  induction on the range: the state is given as a function of the month index, and one
  symbolic step is proved for any index of the range.
\<close>

lemma run_months_append:
  "run_months entries (xs @ ys) sd =
     (case run_months entries xs sd of Inl err \<Rightarrow> Inl err | Inr sd1 \<Rightarrow> run_months entries ys sd1)"
  by (induction xs arbitrary: sd) (simp_all split: sum.splits)

lemma run_months_upto:
  assumes "\<And>i. a \<le> i \<Longrightarrow> i \<le> b \<Longrightarrow> month_step entries i (S i, D i) = Inr (S (i + 1), D (i + 1))"
    and "a \<le> b + 1"
  shows "run_months entries [a..b] (S a, D a) = Inr (S (b + 1), D (b + 1))"
  using assms
proof (induction "nat (b + 1 - a)" arbitrary: a)
  case 0
  then have "a = b + 1" by simp
  then show ?case by simp
next
  case (Suc n)
  then have less: "a \<le> b" by simp
  have "n = nat (b + 1 - (a + 1))" using Suc.hyps(2) by simp
  from Suc.hyps(1) [OF this] Suc.prems(1) less
  have "run_months entries [a + 1..b] (S (a + 1), D (a + 1)) = Inr (S (b + 1), D (b + 1))"
    by simp
  moreover have "month_step entries a (S a, D a) = Inr (S (a + 1), D (a + 1))"
    using Suc.prems(1) [of a] less by simp
  ultimately show ?case using less by (simp add: upto_rec1 [of a b])
qed

lemma alloc_class_first_tier:
  assumes "st CLASS = \<lparr>score = s, monthsServed = m, capped = False\<rparr>" and "score (st VICE) = v"
    and "0 \<le> s" and "0 \<le> v" and "s + v \<le> 14" and "m < 72"
  shows "allocate WEIGHTS (sort_candidates (map (candidate (serve [CLASS] st)) [CLASS]))
           (serve [CLASS] st) =
         (st(CLASS := \<lparr>score = s + 1 / 12, monthsServed = m + 1, capped = False\<rparr>),
          [\<lparr>a_role = CLASS, weight = 1, gain = 833 / 10000\<rparr>])"
  using assms by (simp add: alloc_defs)

lemma run_months_phase:
  assumes "\<And>i ds. a \<le> i \<Longrightarrow> i \<le> b \<Longrightarrow>
             month_step entries i (S i, ds) =
               Inr (S (i + 1), ds @ [\<lparr>ym = indexToYM i, allocations = A\<rparr>])"
    and "a \<le> b + 1"
  shows "run_months entries [a..b] (S a, ds) =
           Inr (S (b + 1), ds @ map (\<lambda>i. \<lparr>ym = indexToYM i, allocations = A\<rparr>) [a..b])"
proof -
  let ?D = "\<lambda>i. ds @ map (\<lambda>i. \<lparr>ym = indexToYM i, allocations = A\<rparr>) [a..i - 1]"
  have "run_months entries [a..b] (S a, ?D a) = Inr (S (b + 1), ?D (b + 1))"
  proof (rule run_months_upto)
    fix i :: int
    assume i: "a \<le> i" "i \<le> b"
    then have "[a..i + 1 - 1] = [a..i - 1] @ [i]"
      by (simp add: upto_rec2 [of a i])
    with assms(1) [OF i, of "?D i"]
    show "month_step entries i (S i, ?D i) = Inr (S (i + 1), ?D (i + 1))" by simp
  qed (rule assms(2))
  then show ?thesis by simp
qed

lemma alloc_vice_first_tier:
  assumes "st VICE = \<lparr>score = s, monthsServed = m, capped = False\<rparr>" and "score (st CLASS) = c"
    and "0 \<le> s" and "0 \<le> c" and "s + c \<le> 14" and "m < 72"
  shows "allocate WEIGHTS (sort_candidates (map (candidate (serve [VICE] st)) [VICE]))
           (serve [VICE] st) =
         (st(VICE := \<lparr>score = s + 1 / 24, monthsServed = m + 1, capped = False\<rparr>),
          [\<lparr>a_role = VICE, weight = 1, gain = 417 / 10000\<rparr>])"
  using assms by (simp add: alloc_defs)

lemma alloc_class_second_tier:
  assumes "st CLASS = \<lparr>score = s, monthsServed = m, capped = False\<rparr>" and "score (st VICE) = v"
    and "0 \<le> s" and "0 \<le> v" and "s + v \<le> 14 + 4 / 5" and "72 \<le> m"
  shows "allocate WEIGHTS (sort_candidates (map (candidate (serve [CLASS] st)) [CLASS]))
           (serve [CLASS] st) =
         (st(CLASS := \<lparr>score = s + 1 / 8, monthsServed = m + 1, capped = False\<rparr>),
          [\<lparr>a_role = CLASS, weight = 1, gain = 1250 / 10000\<rparr>])"
  using assms by (simp add: alloc_defs)

lemma alloc_vice_class_first_tier:
  assumes "st CLASS = \<lparr>score = c, monthsServed = mc, capped = False\<rparr>"
    and "st VICE = \<lparr>score = v, monthsServed = mv, capped = False\<rparr>"
    and "0 \<le> c" and "0 \<le> v" and "c + v \<le> 14" and "mc < 72" and "mv < 72"
  shows "allocate WEIGHTS (sort_candidates (map (candidate (serve [VICE, CLASS] st)) [VICE, CLASS]))
           (serve [VICE, CLASS] st) =
         (st(CLASS := \<lparr>score = c + 1 / 12, monthsServed = mc + 1, capped = False\<rparr>,
             VICE := \<lparr>score = v + 1 / 48, monthsServed = mv + 1, capped = False\<rparr>),
          [\<lparr>a_role = CLASS, weight = 1, gain = 833 / 10000\<rparr>,
           \<lparr>a_role = VICE, weight = 1 / 2, gain = 208 / 10000\<rparr>])"
  using assms by (simp add: alloc_defs fun_upd_twist [of CLASS VICE] split del: if_split cong: if_weak_cong)

subsection \<open>The run of \<open>tier_overlap\<close>\<close>

lemma parse_tier_overlap: "parse_entries 0 (record_lines tier_overlap) = Inr tier_entries"
  by (simp add: tier_overlap_def tier_entries_def text_defs parse_defs)

lemma range_tier_entries: "month_range tier_entries = [24240..24311]"
  by (simp add: tier_entries_def text_defs month_defs del: upto.simps upto_rec_numeral)

lemma those_class: "those (map own_key [role_name CLASS]) = Some [CLASS]"
  by (simp add: own_key_def role_keys_def)

lemma step_tier_single:
  assumes "24240 \<le> i" and "i \<le> 24310"
  shows "month_step tier_entries i
           (init_state(CLASS := \<lparr>score = of_int (i - 24240) / 12, monthsServed = i - 24240,
                                  capped = False\<rparr>), ds) =
         Inr (init_state(CLASS := \<lparr>score = of_int (i + 1 - 24240) / 12,
                                      monthsServed = i + 1 - 24240, capped = False\<rparr>),
              ds @ [\<lparr>ym = indexToYM i,
                      allocations = [\<lparr>a_role = CLASS, weight = 1, gain = 833 / 10000\<rparr>]\<rparr>])"
proof -
  let ?st = "init_state(CLASS := \<lparr>score = of_int (i - 24240) / 12, monthsServed = i - 24240,
                                  capped = False\<rparr>)"
  have a: "activeRoles tier_entries ?st i = [role_name CLASS]"
    using assms by (simp add: tier_entries_def text_defs month_defs init_state_def)
  have al: "allocate WEIGHTS (sort_candidates (map (candidate (serve [CLASS] ?st)) [CLASS]))
           (serve [CLASS] ?st) =
         (?st(CLASS := \<lparr>score = of_int (i - 24240) / 12 + 1 / 12, monthsServed = i - 24240 + 1,
                          capped = False\<rparr>),
          [\<lparr>a_role = CLASS, weight = 1, gain = 833 / 10000\<rparr>])"
    using assms
    by (intro alloc_class_first_tier [where v = 0]) (simp_all add: init_state_def)
  have e: "(of_int (i - 24240) / 12 :: rat) + 1 / 12 = of_int (i + 1 - 24240) / 12"
    by (simp add: add_divide_distrib [symmetric])
  have f: "i - 24240 + 1 = i + 1 - 24240" by simp
  from month_step_alloc [OF a _ those_class al, where ds = ds]
  show ?thesis by (simp only: e f fun_upd_upd) simp
qed

lemma run_tier_single:
  "run_months tier_entries [24240..24310] (init_state, []) =
     Inr (init_state(CLASS := \<lparr>score = 71 / 12, monthsServed = 71, capped = False\<rparr>),
          map (\<lambda>i. \<lparr>ym = indexToYM i,
                     allocations = [\<lparr>a_role = CLASS, weight = 1, gain = 833 / 10000\<rparr>]\<rparr>)
            [24240..24310])"
proof -
  let ?S = "\<lambda>i. init_state(CLASS := \<lparr>score = of_int (i - 24240) / 12, monthsServed = i - 24240,
                                  capped = False\<rparr>)"
  let ?D = "\<lambda>i. map (\<lambda>i. \<lparr>ym = indexToYM i,
                     allocations = [\<lparr>a_role = CLASS, weight = 1, gain = 833 / 10000\<rparr>]\<rparr>)
            [24240..i - 1]"
  have "run_months tier_entries [24240..24310] (?S 24240, ?D 24240) = Inr (?S (24310 + 1), ?D (24310 + 1))"
  proof (rule run_months_upto)
    fix i :: int
    assume i: "24240 \<le> i" "i \<le> 24310"
    then have "[24240..i + 1 - 1] = [24240..i - 1] @ [i]"
      by (simp add: upto_rec2 [of 24240 i])
    with step_tier_single [OF i, of "?D i"]
    show "month_step tier_entries i (?S i, ?D i) = Inr (?S (i + 1), ?D (i + 1))" by simp
  qed simp
  moreover have "?S 24240 = init_state" by (simp add: init_state_def fun_eq_iff)
  ultimately show ?thesis by simp
qed

lemma step_tier_overlap:
  "month_step tier_entries 24311
     (init_state(CLASS := \<lparr>score = 71 / 12, monthsServed = 71, capped = False\<rparr>), ds) =
   Inr (init_state(CLASS := \<lparr>score = 293 / 48, monthsServed = 73, capped = False\<rparr>),
        ds @ [\<lparr>ym = ascii ''2025-12'',
                allocations = [\<lparr>a_role = CLASS, weight = 1, gain = 1250 / 10000\<rparr>,
                               \<lparr>a_role = CLASS, weight = 1 / 2, gain = 625 / 10000\<rparr>]\<rparr>])"
  by (simp add: tier_entries_def month_step_def text_defs month_defs alloc_defs
      split del: if_split cong: if_weak_cong)

lemma walk_tier_overlap:
  "walk tier_overlap =
     Inr (init_state(CLASS := \<lparr>score = 293 / 48, monthsServed = 73, capped = False\<rparr>),
          map (\<lambda>i. \<lparr>ym = indexToYM i,
                     allocations = [\<lparr>a_role = CLASS, weight = 1, gain = 833 / 10000\<rparr>]\<rparr>)
            [24240..24310] @
          [\<lparr>ym = ascii ''2025-12'',
            allocations = [\<lparr>a_role = CLASS, weight = 1, gain = 1250 / 10000\<rparr>,
                           \<lparr>a_role = CLASS, weight = 1 / 2, gain = 625 / 10000\<rparr>]\<rparr>])"
proof -
  have "[24240..24311] = [24240..24310] @ [24311]"
    using upto_rec2 [of 24240 24311] by simp
  then show ?thesis
    unfolding walk_eval [OF refl parse_tier_overlap range_tier_entries]
    by (simp only: run_months_append run_tier_single sum.case run_months.simps step_tier_overlap)
qed

subsection \<open>The run of \<open>long_service\<close>\<close>

text \<open>
  Six stretches: VICE alone (36 months), both roles at their first tier (36 months), the
  month in which VICE reaches its second tier, CLASS alone at its first tier (35 months),
  CLASS at its second tier (53 months), and the month in which the combined cap is
  reached and the gain is clamped to the headroom left.
\<close>

lemma parse_long_service: "parse_entries 0 (record_lines long_service) = Inr long_entries"
  by (simp add: long_service_def long_entries_def text_defs parse_defs)

lemma range_long_entries: "month_range long_entries = [24000..24161]"
  by (simp add: long_entries_def text_defs month_defs del: upto.simps upto_rec_numeral)

lemma those_vice: "those (map own_key [role_name VICE]) = Some [VICE]"
  by (simp add: own_key_def role_keys_def)

lemma those_vice_class: "those (map own_key [role_name VICE, role_name CLASS]) = Some [VICE, CLASS]"
  by (simp add: own_key_def role_keys_def)

lemma step_long_vice:
  assumes "24000 \<le> i" and "i \<le> 24035"
  shows "month_step long_entries i
           (init_state(VICE := \<lparr>score = of_int (i - 24000) / 24, monthsServed = i - 24000,
                                 capped = False\<rparr>), ds) =
         Inr (init_state(VICE := \<lparr>score = of_int (i + 1 - 24000) / 24,
                                     monthsServed = i + 1 - 24000, capped = False\<rparr>),
              ds @ [\<lparr>ym = indexToYM i,
                      allocations = [\<lparr>a_role = VICE, weight = 1, gain = 417 / 10000\<rparr>]\<rparr>])"
proof -
  let ?st = "init_state(VICE := \<lparr>score = of_int (i - 24000) / 24, monthsServed = i - 24000,
                                 capped = False\<rparr>)"
  have a: "activeRoles long_entries ?st i = [role_name VICE]"
    using assms by (simp add: long_entries_def text_defs month_defs init_state_def)
  have al: "allocate WEIGHTS (sort_candidates (map (candidate (serve [VICE] ?st)) [VICE]))
           (serve [VICE] ?st) =
         (?st(VICE := \<lparr>score = of_int (i - 24000) / 24 + 1 / 24, monthsServed = i - 24000 + 1,
                         capped = False\<rparr>),
          [\<lparr>a_role = VICE, weight = 1, gain = 417 / 10000\<rparr>])"
    using assms
    by (intro alloc_vice_first_tier [where c = 0]) (simp_all add: init_state_def)
  have e: "(of_int (i - 24000) / 24 :: rat) + 1 / 24 = of_int (i + 1 - 24000) / 24"
    by (simp add: add_divide_distrib [symmetric])
  have f: "i - 24000 + 1 = i + 1 - 24000" by simp
  from month_step_alloc [OF a _ those_vice al, where ds = ds]
  show ?thesis by (simp only: e f fun_upd_upd) simp
qed

lemma step_long_both:
  assumes "24036 \<le> i" and "i \<le> 24071"
  shows "month_step long_entries i
           (init_state(CLASS := \<lparr>score = of_int (i - 24036) / 12, monthsServed = i - 24036,
                                  capped = False\<rparr>,
                       VICE := \<lparr>score = 3 / 2 + of_int (i - 24036) / 48,
                                 monthsServed = i - 24000, capped = False\<rparr>), ds) =
         Inr (init_state(CLASS := \<lparr>score = of_int (i + 1 - 24036) / 12,
                                      monthsServed = i + 1 - 24036, capped = False\<rparr>,
                         VICE := \<lparr>score = 3 / 2 + of_int (i + 1 - 24036) / 48,
                                   monthsServed = i + 1 - 24000, capped = False\<rparr>),
              ds @ [\<lparr>ym = indexToYM i,
                      allocations = [\<lparr>a_role = CLASS, weight = 1, gain = 833 / 10000\<rparr>,
                                     \<lparr>a_role = VICE, weight = 1 / 2, gain = 208 / 10000\<rparr>]\<rparr>])"
proof -
  let ?st = "init_state(CLASS := \<lparr>score = of_int (i - 24036) / 12, monthsServed = i - 24036,
                                  capped = False\<rparr>,
                       VICE := \<lparr>score = 3 / 2 + of_int (i - 24036) / 48,
                                 monthsServed = i - 24000, capped = False\<rparr>)"
  have a: "activeRoles long_entries ?st i = [role_name VICE, role_name CLASS]"
    using assms by (simp add: long_entries_def text_defs month_defs init_state_def)
  have al: "allocate WEIGHTS
           (sort_candidates (map (candidate (serve [VICE, CLASS] ?st)) [VICE, CLASS]))
           (serve [VICE, CLASS] ?st) =
         (?st(CLASS := \<lparr>score = of_int (i - 24036) / 12 + 1 / 12, monthsServed = i - 24036 + 1,
                          capped = False\<rparr>,
              VICE := \<lparr>score = 3 / 2 + of_int (i - 24036) / 48 + 1 / 48,
                        monthsServed = i - 24000 + 1, capped = False\<rparr>),
          [\<lparr>a_role = CLASS, weight = 1, gain = 833 / 10000\<rparr>,
           \<lparr>a_role = VICE, weight = 1 / 2, gain = 208 / 10000\<rparr>])"
  proof -
    have "0 \<le> i - 24036" "i - 24036 \<le> 35" using assms by simp_all
    then have r: "(0 :: rat) \<le> of_int (i - 24036)" "(of_int (i - 24036) :: rat) \<le> 35"
      by (simp_all only: of_int_0_le_iff of_int_le_numeral_iff)
    have 1: "?st CLASS = \<lparr>score = of_int (i - 24036) / 12, monthsServed = i - 24036,
                                  capped = False\<rparr>"
      and 2: "?st VICE = \<lparr>score = 3 / 2 + of_int (i - 24036) / 48,
                                 monthsServed = i - 24000, capped = False\<rparr>"
      by simp_all
    have "0 \<le> x / 12 \<and> 0 \<le> 3 / 2 + x / 48 \<and> x / 12 + (3 / 2 + x / 48) \<le> 14"
      if "0 \<le> x" "x \<le> 35" for x :: rat
      using that by simp
    from this [OF r]
    have 3: "(0 :: rat) \<le> of_int (i - 24036) / 12"
      and 4: "(0 :: rat) \<le> 3 / 2 + of_int (i - 24036) / 48"
      and 5: "(of_int (i - 24036) / 12 :: rat) + (3 / 2 + of_int (i - 24036) / 48) \<le> 14"
      by blast+
    have 6: "i - 24036 < 72" and 7: "i - 24000 < 72" using assms by simp_all
    show ?thesis by (rule alloc_vice_class_first_tier [OF 1 2 3 4 5 6 7])
  qed
  have e: "(of_int (i - 24036) / 12 :: rat) + 1 / 12 = of_int (i + 1 - 24036) / 12"
    "(3 / 2 + of_int (i - 24036) / 48 :: rat) + 1 / 48 = 3 / 2 + of_int (i + 1 - 24036) / 48"
    by (simp_all add: field_simps)
  have f: "i - 24036 + 1 = i + 1 - 24036" "i - 24000 + 1 = i + 1 - 24000" by simp_all
  have g: "?st(CLASS := x, VICE := y) = init_state(CLASS := x, VICE := y)" for x y
    by (simp add: fun_eq_iff)
  from month_step_alloc [OF a _ those_vice_class al, where ds = ds]
  show ?thesis by (simp only: e f g) simp
qed

lemma step_long_switch:
  "month_step long_entries 24072
     (init_state(CLASS := \<lparr>score = 3, monthsServed = 36, capped = False\<rparr>,
                 VICE := \<lparr>score = 9 / 4, monthsServed = 72, capped = False\<rparr>), ds) =
   Inr (init_state(CLASS := \<lparr>score = 37 / 12, monthsServed = 37, capped = False\<rparr>,
                   VICE := \<lparr>score = 73 / 32, monthsServed = 73, capped = False\<rparr>),
        ds @ [\<lparr>ym = indexToYM 24072,
                allocations = [\<lparr>a_role = CLASS, weight = 1, gain = 833 / 10000\<rparr>,
                               \<lparr>a_role = VICE, weight = 1 / 2, gain = 313 / 10000\<rparr>]\<rparr>])"
proof -
  let ?st = "init_state(CLASS := \<lparr>score = 3, monthsServed = 36, capped = False\<rparr>,
                 VICE := \<lparr>score = 9 / 4, monthsServed = 72, capped = False\<rparr>)"
  have a: "activeRoles long_entries ?st 24072 = [role_name VICE, role_name CLASS]"
    by (simp add: long_entries_def text_defs month_defs init_state_def)
  have al: "allocate WEIGHTS
           (sort_candidates (map (candidate (serve [VICE, CLASS] ?st)) [VICE, CLASS]))
           (serve [VICE, CLASS] ?st) =
         (init_state(CLASS := \<lparr>score = 37 / 12, monthsServed = 37, capped = False\<rparr>,
                   VICE := \<lparr>score = 73 / 32, monthsServed = 73, capped = False\<rparr>),
          [\<lparr>a_role = CLASS, weight = 1, gain = 833 / 10000\<rparr>,
           \<lparr>a_role = VICE, weight = 1 / 2, gain = 313 / 10000\<rparr>])"
    by (simp add: alloc_defs fun_upd_twist [of CLASS VICE] split del: if_split cong: if_weak_cong)
  from month_step_alloc [OF a _ those_vice_class al, where ds = ds]
  show ?thesis by simp
qed

lemma step_long_class:
  assumes "24073 \<le> i" and "i \<le> 24107"
  shows "month_step long_entries i
           (init_state(CLASS := \<lparr>score = of_int (i - 24036) / 12, monthsServed = i - 24036,
                                  capped = False\<rparr>,
                       VICE := \<lparr>score = 73 / 32, monthsServed = 73, capped = False\<rparr>), ds) =
         Inr (init_state(CLASS := \<lparr>score = of_int (i + 1 - 24036) / 12,
                                      monthsServed = i + 1 - 24036, capped = False\<rparr>,
                         VICE := \<lparr>score = 73 / 32, monthsServed = 73, capped = False\<rparr>),
              ds @ [\<lparr>ym = indexToYM i,
                      allocations = [\<lparr>a_role = CLASS, weight = 1, gain = 833 / 10000\<rparr>]\<rparr>])"
proof -
  let ?st = "init_state(CLASS := \<lparr>score = of_int (i - 24036) / 12, monthsServed = i - 24036,
                                  capped = False\<rparr>,
                       VICE := \<lparr>score = 73 / 32, monthsServed = 73, capped = False\<rparr>)"
  have a: "activeRoles long_entries ?st i = [role_name CLASS]"
    using assms by (simp add: long_entries_def text_defs month_defs init_state_def)
  have al: "allocate WEIGHTS (sort_candidates (map (candidate (serve [CLASS] ?st)) [CLASS]))
           (serve [CLASS] ?st) =
         (?st(CLASS := \<lparr>score = of_int (i - 24036) / 12 + 1 / 12, monthsServed = i - 24036 + 1,
                          capped = False\<rparr>),
          [\<lparr>a_role = CLASS, weight = 1, gain = 833 / 10000\<rparr>])"
  proof -
    have "0 \<le> i - 24036" "i - 24036 \<le> 71" using assms by simp_all
    then have r: "(0 :: rat) \<le> of_int (i - 24036)" "(of_int (i - 24036) :: rat) \<le> 71"
      by (simp_all only: of_int_0_le_iff of_int_le_numeral_iff)
    have 1: "?st CLASS = \<lparr>score = of_int (i - 24036) / 12, monthsServed = i - 24036,
                                  capped = False\<rparr>"
      and 2: "score (?st VICE) = 73 / 32"
      by simp_all
    have "0 \<le> x / 12 \<and> x / 12 + 73 / 32 \<le> 14" if "0 \<le> x" "x \<le> 71" for x :: rat
      using that by simp
    from this [OF r]
    have 3: "(0 :: rat) \<le> of_int (i - 24036) / 12"
      and 5: "(of_int (i - 24036) / 12 :: rat) + 73 / 32 \<le> 14"
      by blast+
    have 6: "i - 24036 < 72" using assms by simp
    show ?thesis by (rule alloc_class_first_tier [OF 1 2 3 _ 5 6]) simp
  qed
  have e: "(of_int (i - 24036) / 12 :: rat) + 1 / 12 = of_int (i + 1 - 24036) / 12"
    by (simp add: field_simps)
  have f: "i - 24036 + 1 = i + 1 - 24036" by simp
  have g: "?st(CLASS := x) = init_state(CLASS := x, VICE := \<lparr>score = 73 / 32, monthsServed = 73, capped = False\<rparr>)" for x
    by (simp add: fun_eq_iff)
  from month_step_alloc [OF a _ those_class al, where ds = ds]
  show ?thesis by (simp only: e f g) simp
qed

lemma step_long_senior:
  assumes "24108 \<le> i" and "i \<le> 24160"
  shows "month_step long_entries i
           (init_state(CLASS := \<lparr>score = 6 + of_int (i - 24108) / 8, monthsServed = i - 24036,
                                  capped = False\<rparr>,
                       VICE := \<lparr>score = 73 / 32, monthsServed = 73, capped = False\<rparr>), ds) =
         Inr (init_state(CLASS := \<lparr>score = 6 + of_int (i + 1 - 24108) / 8,
                                      monthsServed = i + 1 - 24036, capped = False\<rparr>,
                         VICE := \<lparr>score = 73 / 32, monthsServed = 73, capped = False\<rparr>),
              ds @ [\<lparr>ym = indexToYM i,
                      allocations = [\<lparr>a_role = CLASS, weight = 1, gain = 1250 / 10000\<rparr>]\<rparr>])"
proof -
  let ?st = "init_state(CLASS := \<lparr>score = 6 + of_int (i - 24108) / 8, monthsServed = i - 24036,
                                  capped = False\<rparr>,
                       VICE := \<lparr>score = 73 / 32, monthsServed = 73, capped = False\<rparr>)"
  have a: "activeRoles long_entries ?st i = [role_name CLASS]"
    using assms by (simp add: long_entries_def text_defs month_defs init_state_def)
  have al: "allocate WEIGHTS (sort_candidates (map (candidate (serve [CLASS] ?st)) [CLASS]))
           (serve [CLASS] ?st) =
         (?st(CLASS := \<lparr>score = 6 + of_int (i - 24108) / 8 + 1 / 8, monthsServed = i - 24036 + 1,
                          capped = False\<rparr>),
          [\<lparr>a_role = CLASS, weight = 1, gain = 1250 / 10000\<rparr>])"
  proof -
    have "0 \<le> i - 24108" "i - 24108 \<le> 52" using assms by simp_all
    then have r: "(0 :: rat) \<le> of_int (i - 24108)" "(of_int (i - 24108) :: rat) \<le> 52"
      by (simp_all only: of_int_0_le_iff of_int_le_numeral_iff)
    have 1: "?st CLASS = \<lparr>score = 6 + of_int (i - 24108) / 8, monthsServed = i - 24036,
                                  capped = False\<rparr>"
      and 2: "score (?st VICE) = 73 / 32"
      by simp_all
    have "0 \<le> 6 + x / 8 \<and> 6 + x / 8 + 73 / 32 \<le> 14 + 4 / 5" if "0 \<le> x" "x \<le> 52" for x :: rat
      using that by simp
    from this [OF r]
    have 3: "(0 :: rat) \<le> 6 + of_int (i - 24108) / 8"
      and 5: "(6 + of_int (i - 24108) / 8 :: rat) + 73 / 32 \<le> 14 + 4 / 5"
      by blast+
    have 6: "72 \<le> i - 24036" using assms by simp
    show ?thesis by (rule alloc_class_second_tier [OF 1 2 3 _ 5 6]) simp
  qed
  have e: "(6 + of_int (i - 24108) / 8 :: rat) + 1 / 8 = 6 + of_int (i + 1 - 24108) / 8"
    by (simp add: field_simps)
  have f: "i - 24036 + 1 = i + 1 - 24036" by simp
  have g: "?st(CLASS := x) = init_state(CLASS := x, VICE := \<lparr>score = 73 / 32, monthsServed = 73, capped = False\<rparr>)" for x
    by (simp add: fun_eq_iff)
  from month_step_alloc [OF a _ those_class al, where ds = ds]
  show ?thesis by (simp only: e f g) simp
qed

lemma step_long_last:
  "month_step long_entries 24161
     (init_state(CLASS := \<lparr>score = 101 / 8, monthsServed = 125, capped = False\<rparr>,
                 VICE := \<lparr>score = 73 / 32, monthsServed = 73, capped = False\<rparr>), ds) =
   Inr (init_state(CLASS := \<lparr>score = 407 / 32, monthsServed = 126, capped = True\<rparr>,
                   VICE := \<lparr>score = 73 / 32, monthsServed = 73, capped = True\<rparr>),
        ds @ [\<lparr>ym = indexToYM 24161,
                allocations = [\<lparr>a_role = CLASS, weight = 1, gain = 938 / 10000\<rparr>]\<rparr>])"
proof -
  let ?st = "init_state(CLASS := \<lparr>score = 101 / 8, monthsServed = 125, capped = False\<rparr>,
                 VICE := \<lparr>score = 73 / 32, monthsServed = 73, capped = False\<rparr>)"
  have a: "activeRoles long_entries ?st 24161 = [role_name CLASS]"
    by (simp add: long_entries_def text_defs month_defs init_state_def)
  have al: "allocate WEIGHTS (sort_candidates (map (candidate (serve [CLASS] ?st)) [CLASS]))
           (serve [CLASS] ?st) =
         (init_state(CLASS := \<lparr>score = 407 / 32, monthsServed = 126, capped = True\<rparr>,
                   VICE := \<lparr>score = 73 / 32, monthsServed = 73, capped = True\<rparr>),
          [\<lparr>a_role = CLASS, weight = 1, gain = 938 / 10000\<rparr>])"
    by (simp add: alloc_defs fun_upd_twist [of CLASS VICE])
  from month_step_alloc [OF a _ those_class al, where ds = ds]
  show ?thesis by simp
qed

lemma upto_long_service:
  "[24000..24161] =
     [24000..24035] @ [24036..24071] @ [24072] @ [24073..24107] @ [24108..24160] @ [24161 :: int]"
proof -
  have "[24000..24161 :: int] = [24000..24035] @ [24036..24161]"
    using upto_split1 [of 24000 24036 24161] by (simp del: upto.simps upto_rec_numeral)
  also have "[24036..24161 :: int] = [24036..24071] @ [24072..24161]"
    using upto_split1 [of 24036 24072 24161] by (simp del: upto.simps upto_rec_numeral)
  also have "[24072..24161 :: int] = [24072] @ [24073..24161]"
    using upto_rec1 [of 24072 24161] by (simp del: upto.simps upto_rec_numeral)
  also have "[24073..24161 :: int] = [24073..24107] @ [24108..24161]"
    using upto_split1 [of 24073 24108 24161] by (simp del: upto.simps upto_rec_numeral)
  also have "[24108..24161 :: int] = [24108..24160] @ [24161]"
    using upto_rec2 [of 24108 24161] by (simp del: upto.simps upto_rec_numeral)
  finally show ?thesis .
qed

lemma walk_long_service:
  "\<exists>ds. walk long_service =
     Inr (init_state(CLASS := \<lparr>score = 407 / 32, monthsServed = 126, capped = True\<rparr>,
                     VICE := \<lparr>score = 73 / 32, monthsServed = 73, capped = True\<rparr>), ds)"
proof -
  let ?V = "\<lparr>score = 73 / 32, monthsServed = 73, capped = False\<rparr>"
  have s0: "init_state(VICE := \<lparr>score = 0, monthsServed = 0, capped = False\<rparr>) = init_state"
    by (simp add: fun_eq_iff init_state_def)
  have s1: "init_state(CLASS := \<lparr>score = 0, monthsServed = 0, capped = False\<rparr>, VICE := x) =
            init_state(VICE := x)" for x
    by (simp add: fun_eq_iff init_state_def)
  have p1: "\<exists>ds'. run_months long_entries [24000..24035] (init_state, ds) =
          Inr (init_state(VICE := \<lparr>score = 3 / 2, monthsServed = 36, capped = False\<rparr>), ds')" for ds
    using run_months_phase [where entries = long_entries and a = 24000 and b = 24035 and ds = ds
        and S = "\<lambda>i. init_state(VICE := \<lparr>score = of_int (i - 24000) / 24,
                    monthsServed = i - 24000, capped = False\<rparr>)", OF step_long_vice]
    by (simp add: s0 del: upto.simps upto_rec_numeral)
  have p2: "\<exists>ds'. run_months long_entries [24036..24071]
          (init_state(VICE := \<lparr>score = 3 / 2, monthsServed = 36, capped = False\<rparr>), ds) =
          Inr (init_state(CLASS := \<lparr>score = 3, monthsServed = 36, capped = False\<rparr>,
                          VICE := \<lparr>score = 9 / 4, monthsServed = 72, capped = False\<rparr>), ds')" for ds
    using run_months_phase [where entries = long_entries and a = 24036 and b = 24071 and ds = ds
        and S = "\<lambda>i. init_state(CLASS := \<lparr>score = of_int (i - 24036) / 12,
                    monthsServed = i - 24036, capped = False\<rparr>,
                  VICE := \<lparr>score = 3 / 2 + of_int (i - 24036) / 48,
                    monthsServed = i - 24000, capped = False\<rparr>)", OF step_long_both]
    by (simp add: s1 del: upto.simps upto_rec_numeral)
  have p3: "\<exists>ds'. run_months long_entries [24072]
          (init_state(CLASS := \<lparr>score = 3, monthsServed = 36, capped = False\<rparr>,
                      VICE := \<lparr>score = 9 / 4, monthsServed = 72, capped = False\<rparr>), ds) =
          Inr (init_state(CLASS := \<lparr>score = 37 / 12, monthsServed = 37, capped = False\<rparr>,
                          VICE := ?V), ds')" for ds
    by (simp add: step_long_switch)
  have p4: "\<exists>ds'. run_months long_entries [24073..24107]
          (init_state(CLASS := \<lparr>score = 37 / 12, monthsServed = 37, capped = False\<rparr>,
                      VICE := ?V), ds) =
          Inr (init_state(CLASS := \<lparr>score = 6, monthsServed = 72, capped = False\<rparr>,
                          VICE := ?V), ds')" for ds
    using run_months_phase [where entries = long_entries and a = 24073 and b = 24107 and ds = ds
        and S = "\<lambda>i. init_state(CLASS := \<lparr>score = of_int (i - 24036) / 12,
                    monthsServed = i - 24036, capped = False\<rparr>, VICE := ?V)", OF step_long_class]
    by (simp del: upto.simps upto_rec_numeral)
  have p5: "\<exists>ds'. run_months long_entries [24108..24160]
          (init_state(CLASS := \<lparr>score = 6, monthsServed = 72, capped = False\<rparr>,
                      VICE := ?V), ds) =
          Inr (init_state(CLASS := \<lparr>score = 101 / 8, monthsServed = 125, capped = False\<rparr>,
                          VICE := ?V), ds')" for ds
    using run_months_phase [where entries = long_entries and a = 24108 and b = 24160 and ds = ds
        and S = "\<lambda>i. init_state(CLASS := \<lparr>score = 6 + of_int (i - 24108) / 8,
                    monthsServed = i - 24036, capped = False\<rparr>, VICE := ?V)", OF step_long_senior]
    by (simp del: upto.simps upto_rec_numeral)
  have p6: "\<exists>ds'. run_months long_entries [24161]
          (init_state(CLASS := \<lparr>score = 101 / 8, monthsServed = 125, capped = False\<rparr>,
                      VICE := ?V), ds) =
          Inr (init_state(CLASS := \<lparr>score = 407 / 32, monthsServed = 126, capped = True\<rparr>,
                     VICE := \<lparr>score = 73 / 32, monthsServed = 73, capped = True\<rparr>), ds')" for ds
    by (simp add: step_long_last)
  from p1 obtain d1 where r1: "run_months long_entries [24000..24035] (init_state, []) =
          Inr (init_state(VICE := \<lparr>score = 3 / 2, monthsServed = 36, capped = False\<rparr>), d1)"
    by blast
  from p2 obtain d2 where r2: "run_months long_entries [24036..24071]
          (init_state(VICE := \<lparr>score = 3 / 2, monthsServed = 36, capped = False\<rparr>), d1) =
          Inr (init_state(CLASS := \<lparr>score = 3, monthsServed = 36, capped = False\<rparr>,
                          VICE := \<lparr>score = 9 / 4, monthsServed = 72, capped = False\<rparr>), d2)"
    by blast
  from p3 obtain d3 where r3: "run_months long_entries [24072]
          (init_state(CLASS := \<lparr>score = 3, monthsServed = 36, capped = False\<rparr>,
                      VICE := \<lparr>score = 9 / 4, monthsServed = 72, capped = False\<rparr>), d2) =
          Inr (init_state(CLASS := \<lparr>score = 37 / 12, monthsServed = 37, capped = False\<rparr>,
                          VICE := ?V), d3)"
    by blast
  from p4 obtain d4 where r4: "run_months long_entries [24073..24107]
          (init_state(CLASS := \<lparr>score = 37 / 12, monthsServed = 37, capped = False\<rparr>,
                      VICE := ?V), d3) =
          Inr (init_state(CLASS := \<lparr>score = 6, monthsServed = 72, capped = False\<rparr>,
                          VICE := ?V), d4)"
    by blast
  from p5 obtain d5 where r5: "run_months long_entries [24108..24160]
          (init_state(CLASS := \<lparr>score = 6, monthsServed = 72, capped = False\<rparr>,
                      VICE := ?V), d4) =
          Inr (init_state(CLASS := \<lparr>score = 101 / 8, monthsServed = 125, capped = False\<rparr>,
                          VICE := ?V), d5)"
    by blast
  from p6 obtain d6 where r6: "run_months long_entries [24161]
          (init_state(CLASS := \<lparr>score = 101 / 8, monthsServed = 125, capped = False\<rparr>,
                      VICE := ?V), d5) =
          Inr (init_state(CLASS := \<lparr>score = 407 / 32, monthsServed = 126, capped = True\<rparr>,
                     VICE := \<lparr>score = 73 / 32, monthsServed = 73, capped = True\<rparr>), d6)"
    by blast
  have "walk long_service =
     Inr (init_state(CLASS := \<lparr>score = 407 / 32, monthsServed = 126, capped = True\<rparr>,
                     VICE := \<lparr>score = 73 / 32, monthsServed = 73, capped = True\<rparr>), d6)"
    unfolding walk_eval [OF refl parse_long_service range_long_entries] upto_long_service
    by (simp only: run_months_append r1 r2 r3 r4 r5 r6 sum.case)
  then show ?thesis by blast
qed

section \<open>Invariants of the walk\<close>

lemma score_credit:
  "score (credit st role a r) = (if r = role then score (st role) + a else score (st r))"
  by (simp add: credit_def Let_def)


lemma score_serve: "score (serve rs st r) = score (st r)"
  by (induction rs arbitrary: st) simp_all


lemma capped_serve: "capped (serve rs st r) = capped (st r)"
  by (induction rs arbitrary: st) simp_all

lemma allowable_combo:
  assumes "score (st CLASS) + score (st VICE) \<le> CLASS_VICE_COMBO_CAP" and "linked role"
  shows "score (st CLASS) + score (st VICE) + allowable st role g \<le> CLASS_VICE_COMBO_CAP"
  using assms by (simp add: allowable_def Let_def min_def)

lemma combo_allocate_one:
  assumes "score (st CLASS) + score (st VICE) \<le> CLASS_VICE_COMBO_CAP"
  shows "score (fst (allocate_one c w st) CLASS) + score (fst (allocate_one c w st) VICE)
           \<le> CLASS_VICE_COMBO_CAP"
proof (cases "linked (c_role c)")
  case True
  from allowable_combo [OF assms True, of "baselinePerMonth c * w"] True
  show ?thesis by (auto simp: allocate_one_def Let_def score_credit linked_def)
next
  case False
  with assms show ?thesis by (auto simp: allocate_one_def Let_def score_credit linked_def)
qed

lemma combo_allocate:
  assumes "score (st CLASS) + score (st VICE) \<le> CLASS_VICE_COMBO_CAP"
  shows "score (fst (allocate ws cs st) CLASS) + score (fst (allocate ws cs st) VICE)
           \<le> CLASS_VICE_COMBO_CAP"
  using assms
proof (induction ws cs st rule: allocate.induct)
  case (1 w ws c cs roleState)
  have "score (fst (allocate_one c w roleState) CLASS) + score (fst (allocate_one c w roleState) VICE)
           \<le> CLASS_VICE_COMBO_CAP"
    by (rule combo_allocate_one [OF "1.prems"])
  from "1.IH" [OF refl prod.collapse this]
  show ?case by (simp add: split_beta)
qed simp_all

lemma month_step_cases:
  assumes "month_step entries ymIdx (st, ds) = Inr (st', ds')"
  shows "(activeRoles entries st ymIdx = [] \<and> st' = st \<and> ds' = ds) \<or>
         (\<exists>roles. activeRoles entries st ymIdx \<noteq> [] \<and>
             those (map own_key (activeRoles entries st ymIdx)) = Some roles \<and>
             st' = fst (allocate WEIGHTS (sort_candidates (map (candidate (serve roles st)) roles))
                          (serve roles st)) \<and>
             ds' = ds @ [\<lparr>ym = indexToYM ymIdx, allocations =
                 snd (allocate WEIGHTS (sort_candidates (map (candidate (serve roles st)) roles))
                        (serve roles st))\<rparr>])"
  using assms by (auto simp: month_step_def Let_def split_beta split: option.splits if_splits)

lemma combo_month_step:
  assumes "month_step entries ymIdx (st, ds) = Inr (st', ds')"
    and "score (st CLASS) + score (st VICE) \<le> CLASS_VICE_COMBO_CAP"
  shows "score (st' CLASS) + score (st' VICE) \<le> CLASS_VICE_COMBO_CAP"
proof -
  from month_step_cases [OF assms(1)] show ?thesis
  proof (elim disjE exE conjE)
    assume "st' = st" with assms(2) show ?thesis by simp
  next
    fix roles
    assume st': "st' = fst (allocate WEIGHTS
        (sort_candidates (map (candidate (serve roles st)) roles)) (serve roles st))"
    have "score (serve roles st CLASS) + score (serve roles st VICE) \<le> CLASS_VICE_COMBO_CAP"
      using assms(2) by (simp add: score_serve)
    from combo_allocate [OF this] show ?thesis unfolding st' .
  qed
qed

lemma combo_run_months:
  assumes "run_months entries ms (st, ds) = Inr (st', ds')"
    and "score (st CLASS) + score (st VICE) \<le> CLASS_VICE_COMBO_CAP"
  shows "score (st' CLASS) + score (st' VICE) \<le> CLASS_VICE_COMBO_CAP"
  using assms
proof (induction ms arbitrary: st ds)
  case Nil
  then show ?case by simp
next
  case (Cons m ms)
  from Cons.prems(1) obtain st1 ds1 where
    step: "month_step entries m (st, ds) = Inr (st1, ds1)" and
    rest: "run_months entries ms (st1, ds1) = Inr (st', ds')"
    by (auto split: sum.splits)
  from Cons.IH [OF rest combo_month_step [OF step Cons.prems(2)]] show ?case .
qed

lemma allowable_bounds:
  assumes "0 \<le> score (st role)" "score (st role) \<le> caps role" "0 \<le> g"
  shows "0 \<le> allowable st role g \<and> score (st role) + allowable st role g \<le> caps role"
  using assms by (simp add: allowable_def Let_def min_def)

lemma range_allocate_one:
  assumes "in_range st" "0 \<le> baselinePerMonth c" "0 \<le> w"
  shows "in_range (fst (allocate_one c w st))"
proof -
  have g: "0 \<le> baselinePerMonth c * w" using assms(2,3) by simp
  from assms(1) have "0 \<le> score (st (c_role c))" "score (st (c_role c)) \<le> caps (c_role c)"
    by (simp_all add: in_range_def)
  from allowable_bounds [of st "c_role c", OF this g] assms(1)
  show ?thesis by (auto simp: in_range_def allocate_one_def Let_def score_credit)
qed

lemma range_allocate:
  assumes "in_range st" "\<forall>c \<in> set cs. 0 \<le> baselinePerMonth c" "\<forall>w \<in> set ws. 0 \<le> w"
  shows "in_range (fst (allocate ws cs st))"
  using assms
proof (induction ws cs st rule: allocate.induct)
  case (1 w ws c cs roleState)
  have "in_range (fst (allocate_one c w roleState))"
    using "1.prems" by (intro range_allocate_one) simp_all
  from "1.IH" [OF refl prod.collapse this] "1.prems"
  show ?case by (simp add: split_beta)
qed simp_all

lemma baseline_nonneg: "0 \<le> baselinePerMonth (candidate st r)"
  by (cases r) (simp_all add: candidate_def Let_def)

lemma set_insert_sorted: "set (insert_sorted a bs) = insert a (set bs)"
  by (induction bs) auto

lemma set_sort_candidates: "set (sort_candidates cs) = set cs"
  by (induction cs) (simp_all add: set_insert_sorted)



lemma weights_nonneg: "\<forall>w \<in> set WEIGHTS. 0 \<le> w"
  by (simp add: WEIGHTS_def)

lemma in_range_serve: "in_range (serve rs st) = in_range st"
  by (simp add: in_range_def score_serve)

lemma range_month_step:
  assumes "month_step entries ymIdx (st, ds) = Inr (st', ds')" and "in_range st"
  shows "in_range st'"
proof -
  from month_step_cases [OF assms(1)] show ?thesis
  proof (elim disjE exE conjE)
    assume "st' = st" with assms(2) show ?thesis by simp
  next
    fix roles
    assume st': "st' = fst (allocate WEIGHTS
        (sort_candidates (map (candidate (serve roles st)) roles)) (serve roles st))"
    have "in_range (serve roles st)" using assms(2) by (simp add: in_range_serve)
    then show ?thesis unfolding st'
      by (rule range_allocate) (auto simp: set_sort_candidates baseline_nonneg weights_nonneg)
  qed
qed

lemma range_run_months:
  assumes "run_months entries ms (st, ds) = Inr (st', ds')" and "in_range st"
  shows "in_range st'"
  using assms
proof (induction ms arbitrary: st ds)
  case Nil
  then show ?case by simp
next
  case (Cons m ms)
  from Cons.prems(1) obtain st1 ds1 where
    step: "month_step entries m (st, ds) = Inr (st1, ds1)" and
    rest: "run_months entries ms (st1, ds1) = Inr (st', ds')"
    by (auto split: sum.splits)
  from Cons.IH [OF rest range_month_step [OF step Cons.prems(2)]] show ?case .
qed

lemma caps_nonneg: "0 \<le> caps r"
  by (cases r) simp_all

lemma in_range_init: "in_range init_state"
  by (simp add: in_range_def init_state_def caps_nonneg)

lemma toFixed4_bounds:
  assumes "0 \<le> x" "x \<le> of_int n"
  shows "0 \<le> toFixed4 x \<and> toFixed4 x \<le> of_int n"
proof -
  have "\<lfloor>x * 10000 + 1 / 2\<rfloor> \<le> \<lfloor>(of_int (n * 10000) :: rat) + 1 / 2\<rfloor>"
    using assms(2) by (intro floor_mono) simp
  also have "\<dots> = n * 10000" by linarith
  finally have "(of_int \<lfloor>x * 10000 + 1 / 2\<rfloor> :: rat) \<le> of_int (n * 10000)"
    by (simp only: of_int_le_iff)
  moreover have "0 \<le> \<lfloor>x * 10000 + 1 / 2\<rfloor>" using assms(1) by simp
  ultimately show ?thesis using assms(1) by (simp add: toFixed4_def divide_le_eq)
qed

lemma caps_int: "caps r = of_int (case r of PREP \<Rightarrow> 8 | MID \<Rightarrow> 20 | _ \<Rightarrow> 15)"
  by (cases r) simp_all

lemma walk_Inr:
  assumes "walk csvText = Inr (st, ds)"
  shows "\<exists>entries. parse_entries 0 (record_lines csvText) = Inr entries \<and>
           run_months entries (month_range entries) (init_state, []) = Inr (st, ds)"
  using assms by (auto simp: walk_def split: sum.splits)

lemma calculate_Inr:
  assumes "calculate csvText = Inr res"
  shows "\<exists>st ds. walk csvText = Inr (st, ds) \<and> roleSummary res = summarise st \<and>
           totalScore res = total_of (summarise st) \<and> monthDetails res = ds"
  using assms by (auto simp: calculate_def split: sum.splits)

lemma toFixed4_upper: "toFixed4 x \<le> x + 1 / 20000"
proof (cases "x < 0")
  case True
  have "- x * 10000 + 1 / 2 < of_int \<lfloor>- x * 10000 + 1 / 2\<rfloor> + 1" by linarith
  then have "- (of_int \<lfloor>- x * 10000 + 1 / 2\<rfloor> / 10000) \<le> x + 1 / 20000"
    by (simp add: field_simps)
  with True show ?thesis by (simp add: toFixed4_def)
next
  case False
  have "of_int \<lfloor>x * 10000 + 1 / 2\<rfloor> \<le> x * 10000 + 1 / 2" by linarith
  then have "of_int \<lfloor>x * 10000 + 1 / 2\<rfloor> / 10000 \<le> x + 1 / 20000"
    by (simp add: field_simps)
  with False show ?thesis by (simp add: toFixed4_def)
qed

section \<open>The combined cap of the two linked roles\<close>

text \<open>
  Claim C1, as the code has it. Take any input that \<open>calculate\<close> accepts, stop the walk
  after any number \<open>k\<close> of months of its range (all of them for the final state), and
  then run any number \<open>j\<close> of slots of the loop of line 77 on any candidates, after the
  months-served counters went up for any roles: at that point the accumulated scores of
  CLASS and VICE sum to at most the combined cap of 15 plus the tolerance of 1e-6. Every
  state the walk goes through has this shape. The amount credited is the raw gain clamped
  first by the combined headroom (forced to 0 when the headroom is not positive), and
  only then by the headroom of the role. In the result the first two summaries are those
  of CLASS and VICE; each score is rounded to four decimals on its own, and the two
  rounded scores sum to at most 15.0001 plus the tolerance: the rounding can add up to
  0.00005 to each.
\<close>

theorem combined_cap_up_to_rounding:
  assumes accepted: "calculate csvText = Inr res"
    and parsed: "parse_entries 0 (record_lines csvText) = Inr entries"
    and months: "run_months entries (take k (month_range entries)) (init_state, []) = Inr (st, ds)"
    and slots: "allocate (take j WEIGHTS) cands (serve roles st) = (st', allocs)"
  shows "score (st' CLASS) + score (st' VICE) \<le> CLASS_VICE_COMBO_CAP + 1 / 1000000 \<and>
         allowable st' role g =
           min (if role = CLASS \<or> role = VICE
                then (if CLASS_VICE_COMBO_CAP - (score (st' CLASS) + score (st' VICE)) \<le> 0 then 0
                      else min g (CLASS_VICE_COMBO_CAP - (score (st' CLASS) + score (st' VICE))))
                else g)
               (caps role - score (st' role)) \<and>
         map s_role (take 2 (roleSummary res)) = [CLASS, VICE] \<and>
         sum_list (map s_score (take 2 (roleSummary res)))
           \<le> CLASS_VICE_COMBO_CAP + 1 / 10000 + 1 / 1000000"
proof -
  have init: "score (init_state CLASS) + score (init_state VICE) \<le> CLASS_VICE_COMBO_CAP"
    by (simp add: init_state_def CLASS_VICE_COMBO_CAP_def)
  from combo_run_months [OF months init]
  have "score (serve roles st CLASS) + score (serve roles st VICE) \<le> CLASS_VICE_COMBO_CAP"
    by (simp add: score_serve)
  from combo_allocate [OF this, of "take j WEIGHTS" cands] slots
  have 1: "score (st' CLASS) + score (st' VICE) \<le> CLASS_VICE_COMBO_CAP + 1 / 1000000" by simp
  have 2: "allowable st' role g =
           min (if role = CLASS \<or> role = VICE
                then (if CLASS_VICE_COMBO_CAP - (score (st' CLASS) + score (st' VICE)) \<le> 0 then 0
                      else min g (CLASS_VICE_COMBO_CAP - (score (st' CLASS) + score (st' VICE))))
                else g)
               (caps role - score (st' role))"
    by (simp add: allowable_def linked_def Let_def)
  from calculate_Inr [OF accepted] obtain stf dsf where
    w: "walk csvText = Inr (stf, dsf)" and rs: "roleSummary res = summarise stf" by blast
  from walk_Inr [OF w] obtain es where
    "run_months es (month_range es) (init_state, []) = Inr (stf, dsf)" by blast
  from combo_run_months [OF this init]
  have final: "score (stf CLASS) + score (stf VICE) \<le> CLASS_VICE_COMBO_CAP" .
  have 3: "map s_role (take 2 (roleSummary res)) = [CLASS, VICE]"
    by (simp add: rs summarise_def role_keys_def)
  have "sum_list (map s_score (take 2 (roleSummary res))) =
          toFixed4 (score (stf CLASS)) + toFixed4 (score (stf VICE))"
    by (simp add: rs summarise_def role_keys_def)
  also have "\<dots> \<le> (score (stf CLASS) + 1 / 20000) + (score (stf VICE) + 1 / 20000)"
    by (intro add_mono toFixed4_upper)
  also have "\<dots> \<le> CLASS_VICE_COMBO_CAP + 1 / 10000 + 1 / 1000000"
    using final by simp
  finally have 4: "sum_list (map s_score (take 2 (roleSummary res)))
           \<le> CLASS_VICE_COMBO_CAP + 1 / 10000 + 1 / 1000000" .
  from 1 2 3 4 show ?thesis by blast
qed

theorem combined_cap_up_to_rounding_witness:
  "calculate (role_name VICE @ ascii '',2020-01-01,2020-01-31'') =
     Inr \<lparr>roleSummary = summarise (init_state(VICE := \<lparr>score = 1 / 24, monthsServed = 1, capped = False\<rparr>)),
          totalScore = total_of (summarise (init_state(VICE := \<lparr>score = 1 / 24, monthsServed = 1, capped = False\<rparr>))),
          monthDetails = [\<lparr>ym = ascii ''2020-01'',
            allocations = [\<lparr>a_role = VICE, weight = 1, gain = 417 / 10000\<rparr>]\<rparr>]\<rparr> \<and>
   parse_entries 0 (record_lines (role_name VICE @ ascii '',2020-01-01,2020-01-31'')) =
     Inr [\<lparr>e_role = role_name VICE, e_start = ascii ''2020-01-01'', e_end = ascii ''2020-01-31''\<rparr>] \<and>
   run_months [\<lparr>e_role = role_name VICE, e_start = ascii ''2020-01-01'', e_end = ascii ''2020-01-31''\<rparr>]
     (take 1 (month_range [\<lparr>e_role = role_name VICE, e_start = ascii ''2020-01-01'', e_end = ascii ''2020-01-31''\<rparr>]))
     (init_state, []) =
     Inr (init_state(VICE := \<lparr>score = 1 / 24, monthsServed = 1, capped = False\<rparr>),
          [\<lparr>ym = ascii ''2020-01'', allocations = [\<lparr>a_role = VICE, weight = 1, gain = 417 / 10000\<rparr>]\<rparr>]) \<and>
   allocate (take 1 WEIGHTS) [\<lparr>c_role = CLASS, baselinePerMonth = 1 / 12, remainingCap = 15\<rparr>]
     (serve [CLASS] (init_state(VICE := \<lparr>score = 1 / 24, monthsServed = 1, capped = False\<rparr>))) =
     (init_state(VICE := \<lparr>score = 1 / 24, monthsServed = 1, capped = False\<rparr>,
                 CLASS := \<lparr>score = 1 / 12, monthsServed = 1, capped = False\<rparr>),
      [\<lparr>a_role = CLASS, weight = 1, gain = 833 / 10000\<rparr>]) \<and>
   score ((init_state(VICE := \<lparr>score = 1 / 24, monthsServed = 1, capped = False\<rparr>,
                 CLASS := \<lparr>score = 1 / 12, monthsServed = 1, capped = False\<rparr>)) CLASS) +
   score ((init_state(VICE := \<lparr>score = 1 / 24, monthsServed = 1, capped = False\<rparr>,
                 CLASS := \<lparr>score = 1 / 12, monthsServed = 1, capped = False\<rparr>)) VICE)
     \<le> CLASS_VICE_COMBO_CAP + 1 / 1000000 \<and>
   sum_list (map s_score (take 2 (summarise
       (init_state(VICE := \<lparr>score = 1 / 24, monthsServed = 1, capped = False\<rparr>)))))
     \<le> CLASS_VICE_COMBO_CAP + 1 / 10000 + 1 / 1000000"
proof -
  let ?e = "[\<lparr>e_role = role_name VICE, e_start = ascii ''2020-01-01'', e_end = ascii ''2020-01-31''\<rparr>]"
  let ?st = "init_state(VICE := \<lparr>score = 1 / 24, monthsServed = 1, capped = False\<rparr>)"
  let ?st' = "init_state(VICE := \<lparr>score = 1 / 24, monthsServed = 1, capped = False\<rparr>,
                 CLASS := \<lparr>score = 1 / 12, monthsServed = 1, capped = False\<rparr>)"
  let ?ds = "[\<lparr>ym = ascii ''2020-01'', allocations = [\<lparr>a_role = VICE, weight = 1, gain = 417 / 10000\<rparr>]\<rparr>]"
  have p: "parse_entries 0 (record_lines (role_name VICE @ ascii '',2020-01-01,2020-01-31'')) = Inr ?e"
    by (simp add: text_defs parse_defs)
  have r: "month_range ?e = [24240]"
    by (simp add: text_defs month_defs)
  have a: "activeRoles ?e init_state 24240 = [role_name VICE]"
    by (simp add: text_defs month_defs init_state_def)
  have k: "those (map own_key [role_name VICE]) = Some [VICE]"
    by (simp add: own_key_def role_keys_def)
  have al: "allocate WEIGHTS (sort_candidates (map (candidate (serve [VICE] init_state)) [VICE]))
       (serve [VICE] init_state) = (?st, [\<lparr>a_role = VICE, weight = 1, gain = 417 / 10000\<rparr>])"
    by (simp add: alloc_defs)
  have ym: "indexToYM 24240 = ascii ''2020-01''"
    by (simp add: text_defs month_defs)
  have m0: "run_months ?e [24240] (init_state, []) = Inr (?st, ?ds)"
    using month_step_alloc [OF a _ k al, where ds = "[]"] by (simp add: ym del: role_name.simps)
  have m: "run_months ?e (take 1 (month_range ?e)) (init_state, []) = Inr (?st, ?ds)"
    unfolding r using m0 by simp
  have "run_months ?e (month_range ?e) (init_state, []) = Inr (?st, ?ds)"
    unfolding r by (rule m0)
  then have w: "walk (role_name VICE @ ascii '',2020-01-01,2020-01-31'') = Inr (?st, ?ds)"
    by (simp only: walk_eval [OF refl p refl])
  note c = calculate_eval [OF w]
  have s: "allocate (take 1 WEIGHTS) [\<lparr>c_role = CLASS, baselinePerMonth = 1 / 12, remainingCap = 15\<rparr>]
     (serve [CLASS] ?st) = (?st', [\<lparr>a_role = CLASS, weight = 1, gain = 833 / 10000\<rparr>])"
    by (simp add: alloc_defs)
  from combined_cap_up_to_rounding [OF c p m s] c p m s show ?thesis by simp
qed

text \<open>
  Counterexample to C1 as first stated, which put the final result under the bound of 15
  plus 1e-6 too. On
  \<open>long_service\<close> the walk ends with the running scores 12.71875 and 2.28125, which sum
  to 15, and the result reports 12.7188 and 2.2813, which sum to 15.0001.
\<close>

theorem rounded_scores_exceed_combined_cap:
  "reported_scores long_service = Inr [127188 / 10000, 22813 / 10000, 0, 0, 0, 0, 0] \<and>
   (127188 / 10000 :: rat) + 22813 / 10000 > 15 + 1 / 1000000"
proof -
  from walk_long_service obtain ds where
    "walk long_service =
     Inr (init_state(CLASS := \<lparr>score = 407 / 32, monthsServed = 126, capped = True\<rparr>,
                     VICE := \<lparr>score = 73 / 32, monthsServed = 73, capped = True\<rparr>), ds)"
    by blast
  from calculate_eval [OF this] show ?thesis
    by (simp add: reported_scores_def result_defs init_state_def)
qed

section \<open>Scores stay within the caps\<close>

text \<open>
  Claim C2. When \<open>calculate\<close> returns a result, every Role Summary of it has a score that
  is at least 0 and at most the cap of its role (so also at most the cap plus 1e-6), and
  the cap it reports is the one of the table. The summary score is the rounding of the
  running score of the final state, and every running score of that state already lies
  between 0 and the cap.
\<close>

theorem role_scores_within_caps:
  assumes "calculate csvText = Inr res" and "s \<in> set (roleSummary res)"
  shows "0 \<le> s_score s \<and> s_score s \<le> s_cap s \<and> s_cap s = caps (s_role s) \<and>
         s_score s \<le> caps (s_role s) + 1 / 1000000 \<and>
         (\<exists>st ds. walk csvText = Inr (st, ds) \<and>
            s_score s = toFixed4 (score (st (s_role s))) \<and>
            0 \<le> score (st (s_role s)) \<and> score (st (s_role s)) \<le> caps (s_role s))"
proof -
  from calculate_Inr [OF assms(1)] obtain st ds where
    w: "walk csvText = Inr (st, ds)" and rs: "roleSummary res = summarise st" by blast
  from walk_Inr [OF w] obtain entries where
    "run_months entries (month_range entries) (init_state, []) = Inr (st, ds)" by blast
  from range_run_months [OF this in_range_init]
  have r: "0 \<le> score (st (s_role s))" "score (st (s_role s)) \<le> caps (s_role s)"
    by (simp_all add: in_range_def)
  from assms(2) rs have s: "s_score s = toFixed4 (score (st (s_role s)))" "s_cap s = caps (s_role s)"
    by (auto simp: summarise_def)
  from r(2) have "score (st (s_role s)) \<le> of_int (case s_role s of PREP \<Rightarrow> 8 | MID \<Rightarrow> 20 | _ \<Rightarrow> 15)"
    by (simp only: caps_int [symmetric])
  from toFixed4_bounds [OF r(1) this]
  have b: "0 \<le> s_score s" "s_score s \<le> caps (s_role s)"
    by (simp_all only: s caps_int [symmetric])
  from b s w r show ?thesis by auto
qed

theorem role_scores_within_caps_witness:
  "calculate scenario1 =
     Inr \<lparr>roleSummary = summarise (init_state(CLASS := \<lparr>score = 1 / 12, monthsServed = 1, capped = False\<rparr>)),
          totalScore = total_of (summarise (init_state(CLASS := \<lparr>score = 1 / 12, monthsServed = 1, capped = False\<rparr>))),
          monthDetails = [\<lparr>ym = ascii ''2020-01'',
            allocations = [\<lparr>a_role = CLASS, weight = 1, gain = 833 / 10000\<rparr>]\<rparr>]\<rparr> \<and>
   \<lparr>s_role = CLASS, s_score = 833 / 10000, s_cap = 15, s_capped = False\<rparr>
     \<in> set (summarise (init_state(CLASS := \<lparr>score = 1 / 12, monthsServed = 1, capped = False\<rparr>))) \<and>
   (0 :: rat) \<le> 833 / 10000 \<and> (833 / 10000 :: rat) \<le> 15"
proof -
  let ?st = "init_state(CLASS := \<lparr>score = 1 / 12, monthsServed = 1, capped = False\<rparr>)"
  let ?s = "\<lparr>s_role = CLASS, s_score = 833 / 10000, s_cap = 15, s_capped = False\<rparr>"
  note c = calculate_eval [OF walk_scenario1]
  have m: "?s \<in> set (summarise ?st)"
    by (simp add: result_defs init_state_def)
  have "?s \<in> set (roleSummary \<lparr>roleSummary = summarise ?st, totalScore = total_of (summarise ?st),
      monthDetails = [\<lparr>ym = ascii ''2020-01'',
            allocations = [\<lparr>a_role = CLASS, weight = 1, gain = 833 / 10000\<rparr>]\<rparr>]\<rparr>)"
    using m by simp
  from role_scores_within_caps [OF c this] c m show ?thesis by simp
qed

section \<open>Scenario 1\<close>

text \<open>
  Claim C9. On the single record \<^verbatim>\<open>"CLASS-name","2020-01-01","2020-01-31"\<close> (the role name
  being the three Chinese characters of the head-teacher role) exactly one month is
  processed, January 2020. In it CLASS is the only candidate, at rank 0 with weight 1
  and the first baseline tier, 1 a year, so 1/12 a month; the trace shows the gain
  0.0833, and the result reports CLASS with score 0.0833 and not capped, every other role
  with score 0, and the total 0.0833. The running score is 1/12 after one month served.
\<close>

theorem scenario1_result:
  "calculate scenario1 =
     Inr \<lparr>roleSummary =
            [\<lparr>s_role = CLASS, s_score = 833 / 10000, s_cap = 15, s_capped = False\<rparr>,
             \<lparr>s_role = VICE, s_score = 0, s_cap = 15, s_capped = False\<rparr>,
             \<lparr>s_role = GRADE, s_score = 0, s_cap = 15, s_capped = False\<rparr>,
             \<lparr>s_role = SUBJECT, s_score = 0, s_cap = 15, s_capped = False\<rparr>,
             \<lparr>s_role = PREP, s_score = 0, s_cap = 8, s_capped = False\<rparr>,
             \<lparr>s_role = MID, s_score = 0, s_cap = 20, s_capped = False\<rparr>,
             \<lparr>s_role = DEPT, s_score = 0, s_cap = 15, s_capped = False\<rparr>],
          totalScore = 833 / 10000,
          monthDetails =
            [\<lparr>ym = ascii ''2020-01'',
              allocations = [\<lparr>a_role = CLASS, weight = 1, gain = 833 / 10000\<rparr>]\<rparr>]\<rparr> \<and>
   final_state scenario1 CLASS = Inr \<lparr>score = 1 / 12, monthsServed = 1, capped = False\<rparr> \<and>
   baselinePerMonth (candidate (serve [CLASS] init_state) CLASS) = 1 / 12 \<and>
   baselines CLASS ! 0 = 1 \<and> toFixed4 (1 / 12) = 833 / 10000"
proof -
  have "calculate scenario1 =
     Inr \<lparr>roleSummary =
            [\<lparr>s_role = CLASS, s_score = 833 / 10000, s_cap = 15, s_capped = False\<rparr>,
             \<lparr>s_role = VICE, s_score = 0, s_cap = 15, s_capped = False\<rparr>,
             \<lparr>s_role = GRADE, s_score = 0, s_cap = 15, s_capped = False\<rparr>,
             \<lparr>s_role = SUBJECT, s_score = 0, s_cap = 15, s_capped = False\<rparr>,
             \<lparr>s_role = PREP, s_score = 0, s_cap = 8, s_capped = False\<rparr>,
             \<lparr>s_role = MID, s_score = 0, s_cap = 20, s_capped = False\<rparr>,
             \<lparr>s_role = DEPT, s_score = 0, s_cap = 15, s_capped = False\<rparr>],
          totalScore = 833 / 10000,
          monthDetails =
            [\<lparr>ym = ascii ''2020-01'',
              allocations = [\<lparr>a_role = CLASS, weight = 1, gain = 833 / 10000\<rparr>]\<rparr>]\<rparr>"
    unfolding calculate_eval [OF walk_scenario1] by (simp add: result_defs init_state_def)
  moreover have "final_state scenario1 CLASS = Inr \<lparr>score = 1 / 12, monthsServed = 1, capped = False\<rparr>"
    by (simp add: final_state_def walk_scenario1)
  moreover have "baselinePerMonth (candidate (serve [CLASS] init_state) CLASS) = 1 / 12"
    by (simp add: candidate_def init_state_def)
  moreover have "toFixed4 (1 / 12) = 833 / 10000"
    by (simp add: toFixed4_def floor_rat_numeral)
  ultimately show ?thesis by simp
qed

lemma trim_Nil: "trim s = [] \<longleftrightarrow> (\<forall>c \<in> set s. is_space c)"
proof
  assume "trim s = []"
  then have all: "\<forall>c \<in> set (dropWhile is_space s). is_space c"
    by (simp add: trim_def dropWhile_eq_Nil_conv)
  have "dropWhile is_space s = []"
  proof (rule ccontr)
    assume ne: "dropWhile is_space s \<noteq> []"
    then have "\<not> is_space (hd (dropWhile is_space s))" by (rule hd_dropWhile)
    moreover from ne have "hd (dropWhile is_space s) \<in> set (dropWhile is_space s)" by simp
    ultimately show False using all by blast
  qed
  then show "\<forall>c \<in> set s. is_space c" by (simp add: dropWhile_eq_Nil_conv)
next
  assume "\<forall>c \<in> set s. is_space c"
  then have d: "dropWhile is_space s = []" by (simp add: dropWhile_eq_Nil_conv)
  show "trim s = []" unfolding trim_def d by simp
qed

lemma record_lines_Nil:
  "record_lines csvText = [] \<longleftrightarrow> (\<forall>l \<in> set (split_lines csvText). \<forall>c \<in> set l. is_space c)"
  by (simp add: record_lines_def filter_empty_conv trim_Nil)

lemma summarise_init:
  "summarise init_state =
     [\<lparr>s_role = CLASS, s_score = 0, s_cap = 15, s_capped = False\<rparr>,
      \<lparr>s_role = VICE, s_score = 0, s_cap = 15, s_capped = False\<rparr>,
      \<lparr>s_role = GRADE, s_score = 0, s_cap = 15, s_capped = False\<rparr>,
      \<lparr>s_role = SUBJECT, s_score = 0, s_cap = 15, s_capped = False\<rparr>,
      \<lparr>s_role = PREP, s_score = 0, s_cap = 8, s_capped = False\<rparr>,
      \<lparr>s_role = MID, s_score = 0, s_cap = 20, s_capped = False\<rparr>,
      \<lparr>s_role = DEPT, s_score = 0, s_cap = 15, s_capped = False\<rparr>]"
  by (simp add: result_defs init_state_def)

section \<open>Input without records\<close>

text \<open>
  Claim C3, as the code has it. When every line of the input is blank (the empty text
  has one empty line), there is no record, and \<open>calculate\<close> does not fail: no month is
  visited, and it returns a result with the seven summaries at score 0 and not capped,
  the total 0 and an empty trace. The code has no check for an empty list of records.
\<close>

theorem no_records_zero_result:
  assumes "\<forall>l \<in> set (split_lines csvText). \<forall>c \<in> set l. is_space c"
  shows "record_lines csvText = [] \<and>
         calculate csvText =
           Inr \<lparr>roleSummary =
                  [\<lparr>s_role = CLASS, s_score = 0, s_cap = 15, s_capped = False\<rparr>,
                   \<lparr>s_role = VICE, s_score = 0, s_cap = 15, s_capped = False\<rparr>,
                   \<lparr>s_role = GRADE, s_score = 0, s_cap = 15, s_capped = False\<rparr>,
                   \<lparr>s_role = SUBJECT, s_score = 0, s_cap = 15, s_capped = False\<rparr>,
                   \<lparr>s_role = PREP, s_score = 0, s_cap = 8, s_capped = False\<rparr>,
                   \<lparr>s_role = MID, s_score = 0, s_cap = 20, s_capped = False\<rparr>,
                   \<lparr>s_role = DEPT, s_score = 0, s_cap = 15, s_capped = False\<rparr>],
                totalScore = 0, monthDetails = []\<rparr>"
proof -
  from assms have r: "record_lines csvText = []" by (simp only: record_lines_Nil)
  have "walk csvText = Inr (init_state, [])"
    by (simp add: walk_def r month_range_def)
  from calculate_eval [OF this] r show ?thesis
    by (simp add: summarise_init total_of_def toFixed4_def floor_rat_numeral)
qed

theorem no_records_zero_result_witness:
  "record_lines [LF, 32, 32, CR, LF, 9] = [] \<and>
   calculate [LF, 32, 32, CR, LF, 9] =
     Inr \<lparr>roleSummary =
            [\<lparr>s_role = CLASS, s_score = 0, s_cap = 15, s_capped = False\<rparr>,
             \<lparr>s_role = VICE, s_score = 0, s_cap = 15, s_capped = False\<rparr>,
             \<lparr>s_role = GRADE, s_score = 0, s_cap = 15, s_capped = False\<rparr>,
             \<lparr>s_role = SUBJECT, s_score = 0, s_cap = 15, s_capped = False\<rparr>,
             \<lparr>s_role = PREP, s_score = 0, s_cap = 8, s_capped = False\<rparr>,
             \<lparr>s_role = MID, s_score = 0, s_cap = 20, s_capped = False\<rparr>,
             \<lparr>s_role = DEPT, s_score = 0, s_cap = 15, s_capped = False\<rparr>],
          totalScore = 0, monthDetails = []\<rparr>"
proof -
  have h: "\<forall>l \<in> set (split_lines [LF, 32, 32, CR, LF, 9]). \<forall>c \<in> set l. is_space c"
    by (simp add: LF_def CR_def is_space_def)
  from no_records_zero_result [OF h] show ?thesis .
qed

theorem empty_input_counterexample:
  "calculate [] =
     Inr \<lparr>roleSummary =
            [\<lparr>s_role = CLASS, s_score = 0, s_cap = 15, s_capped = False\<rparr>,
             \<lparr>s_role = VICE, s_score = 0, s_cap = 15, s_capped = False\<rparr>,
             \<lparr>s_role = GRADE, s_score = 0, s_cap = 15, s_capped = False\<rparr>,
             \<lparr>s_role = SUBJECT, s_score = 0, s_cap = 15, s_capped = False\<rparr>,
             \<lparr>s_role = PREP, s_score = 0, s_cap = 8, s_capped = False\<rparr>,
             \<lparr>s_role = MID, s_score = 0, s_cap = 20, s_capped = False\<rparr>,
             \<lparr>s_role = DEPT, s_score = 0, s_cap = 15, s_capped = False\<rparr>],
          totalScore = 0, monthDetails = []\<rparr>"
  by (simp add: calculate_def walk_def record_lines_def trim_def month_range_def
      summarise_init total_of_def toFixed4_def floor_rat_numeral)

lemma month_step_error:
  assumes "month_step entries ymIdx sd = Inl err"
  shows "err = TypeError"
  using assms by (auto simp: month_step_def Let_def split_beta split: if_splits option.splits)

lemma run_months_error:
  assumes "run_months entries ms sd = Inl err"
  shows "err = TypeError"
  using assms
proof (induction ms arbitrary: sd)
  case Nil
  then show ?case by simp
next
  case (Cons m ms)
  show ?case
  proof (cases "month_step entries m sd")
    case (Inl e)
    with Cons.prems show ?thesis by (simp add: month_step_error [OF Inl])
  next
    case (Inr sd1)
    with Cons.prems have "run_months entries ms sd1 = Inl err" by simp
    then show ?thesis by (rule Cons.IH)
  qed
qed

lemma calculate_format_error:
  "calculate csvText = Inl (CsvFormatError n l) \<longleftrightarrow>
     parse_entries 0 (record_lines csvText) = Inl (CsvFormatError n l)"
proof (cases "parse_entries 0 (record_lines csvText)")
  case (Inl e)
  then show ?thesis by (simp add: calculate_def walk_def)
next
  case (Inr entries)
  have "run_months entries (month_range entries) (init_state, []) \<noteq> Inl (CsvFormatError n l)"
    using run_months_error by fastforce
  with Inr show ?thesis by (auto simp: calculate_def walk_def split: sum.splits)
qed

lemma parse_line_format:
  "parse_line idx line = Inl (CsvFormatError n l) \<longleftrightarrow>
     (match_line line = None \<and> n = idx + 1 \<and> l = line)"
  by (auto simp: parse_line_def split: option.splits)

lemma parse_line_Inr_index:
  "parse_line idx line = Inr e \<longleftrightarrow> parse_line idx' line = Inr e"
  by (auto simp: parse_line_def split: option.splits)

lemma parse_line_Inr_match:
  "parse_line idx line = Inr e \<Longrightarrow> match_line line \<noteq> None"
  by (auto simp: parse_line_def split: option.splits)

lemma parse_entries_format:
  "parse_entries idx ls = Inl (CsvFormatError n l) \<longleftrightarrow>
     (\<exists>i < length ls. n = idx + i + 1 \<and> l = ls ! i \<and> match_line l = None \<and>
        (\<forall>j < i. \<exists>e. parse_line (idx + j) (ls ! j) = Inr e))"
proof (induction ls arbitrary: idx)
  case Nil
  then show ?case by simp
next
  case (Cons a ls)
  show ?case
  proof (cases "parse_line idx a")
    case (Inl err)
    then have no: "\<And>e. parse_line idx a \<noteq> Inr e" by simp
    have "parse_entries idx (a # ls) = Inl (CsvFormatError n l) \<longleftrightarrow>
            (match_line a = None \<and> n = idx + 1 \<and> l = a)"
      using Inl parse_line_format [of idx a n l] by simp
    also have "\<dots> \<longleftrightarrow> (\<exists>i < length (a # ls). n = idx + i + 1 \<and> l = (a # ls) ! i \<and>
        match_line l = None \<and> (\<forall>j < i. \<exists>e. parse_line (idx + j) ((a # ls) ! j) = Inr e))"
      (is "?L \<longleftrightarrow> ?R")
    proof
      assume ?L
      then have "0 < length (a # ls) \<and> n = idx + 0 + 1 \<and> l = (a # ls) ! 0 \<and>
        match_line l = None \<and> (\<forall>j < 0. \<exists>e. parse_line (idx + j) ((a # ls) ! j) = Inr e)"
        by simp
      then show ?R by blast
    next
      assume ?R
      then obtain i where i: "i < length (a # ls)" "n = idx + i + 1" "l = (a # ls) ! i"
        "match_line l = None" "\<forall>j < i. \<exists>e. parse_line (idx + j) ((a # ls) ! j) = Inr e"
        by blast
      have "i = 0"
      proof (rule ccontr)
        assume "i \<noteq> 0"
        with i(5) have "\<exists>e. parse_line (idx + 0) ((a # ls) ! 0) = Inr e" by blast
        with no show False by simp
      qed
      with i show ?L by simp
    qed
    finally show ?thesis .
  next
    case (Inr entry)
    then have m: "match_line a \<noteq> None" by (rule parse_line_Inr_match)
    have "parse_entries idx (a # ls) = Inl (CsvFormatError n l) \<longleftrightarrow>
            parse_entries (Suc idx) ls = Inl (CsvFormatError n l)"
      using Inr by (simp split: sum.splits)
    also have "\<dots> \<longleftrightarrow> (\<exists>i < length ls. n = Suc idx + i + 1 \<and> l = ls ! i \<and> match_line l = None \<and>
        (\<forall>j < i. \<exists>e. parse_line (Suc idx + j) (ls ! j) = Inr e))"
      by (rule Cons.IH)
    also have "\<dots> \<longleftrightarrow> (\<exists>i < length (a # ls). n = idx + i + 1 \<and> l = (a # ls) ! i \<and>
        match_line l = None \<and> (\<forall>j < i. \<exists>e. parse_line (idx + j) ((a # ls) ! j) = Inr e))"
      (is "?L \<longleftrightarrow> ?R")
    proof
      assume ?L
      then obtain i where i: "i < length ls" "n = Suc idx + i + 1" "l = ls ! i"
        "match_line l = None" "\<forall>j < i. \<exists>e. parse_line (Suc idx + j) (ls ! j) = Inr e"
        by blast
      have "\<forall>j < Suc i. \<exists>e. parse_line (idx + j) ((a # ls) ! j) = Inr e"
      proof (intro allI impI)
        fix j assume "j < Suc i"
        show "\<exists>e. parse_line (idx + j) ((a # ls) ! j) = Inr e"
        proof (cases j)
          case 0
          with Inr show ?thesis by simp
        next
          case (Suc j')
          with \<open>j < Suc i\<close> i(5) show ?thesis by simp
        qed
      qed
      with i have "Suc i < length (a # ls) \<and> n = idx + Suc i + 1 \<and> l = (a # ls) ! Suc i \<and>
        match_line l = None \<and> (\<forall>j < Suc i. \<exists>e. parse_line (idx + j) ((a # ls) ! j) = Inr e)"
        by simp
      then show ?R by blast
    next
      assume ?R
      then obtain i where i: "i < length (a # ls)" "n = idx + i + 1" "l = (a # ls) ! i"
        "match_line l = None" "\<forall>j < i. \<exists>e. parse_line (idx + j) ((a # ls) ! j) = Inr e"
        by blast
      from i(3,4) m have "i \<noteq> 0" by (cases i) auto
      then obtain i' where i': "i = Suc i'" by (cases i) auto
      have "\<forall>j < i'. \<exists>e. parse_line (Suc idx + j) (ls ! j) = Inr e"
      proof (intro allI impI)
        fix j assume "j < i'"
        then have "Suc j < i" by (simp add: i')
        with i(5) have "\<exists>e. parse_line (idx + Suc j) ((a # ls) ! Suc j) = Inr e" by blast
        then show "\<exists>e. parse_line (Suc idx + j) (ls ! j) = Inr e" by simp
      qed
      with i i' have "i' < length ls \<and> n = Suc idx + i' + 1 \<and> l = ls ! i' \<and> match_line l = None \<and>
        (\<forall>j < i'. \<exists>e. parse_line (Suc idx + j) (ls ! j) = Inr e)"
        by simp
      then show ?L by blast
    qed
    finally show ?thesis .
  qed
qed

section \<open>Lines that do not match the pattern\<close>

text \<open>
  Claim C8, as the code has it. The lines are checked in order and the first line that
  fails any of the three checks ends the run. So \<open>calculate\<close> fails with the format error
  carrying \<open>n\<close> and \<open>l\<close> exactly when \<open>l\<close> is the \<open>n\<close>-th of the non-blank lines (trimmed,
  counted from 1 with the blank lines left out), \<open>l\<close> does not match the pattern of line
  44, and every non-blank line before it passes all three checks. A run that fails
  returns an error and no result.
\<close>

theorem format_error_iff:
  "calculate csvText = Inl (CsvFormatError n l) \<longleftrightarrow>
     (1 \<le> n \<and> n \<le> length (record_lines csvText) \<and> l = record_lines csvText ! (n - 1) \<and>
      match_line l = None \<and>
      (\<forall>j < n - 1. \<exists>e. parse_line j (record_lines csvText ! j) = Inr e))"
proof -
  have "calculate csvText = Inl (CsvFormatError n l) \<longleftrightarrow>
     (\<exists>i < length (record_lines csvText). n = 0 + i + 1 \<and> l = record_lines csvText ! i \<and>
        match_line l = None \<and>
        (\<forall>j < i. \<exists>e. parse_line (0 + j) (record_lines csvText ! j) = Inr e))"
    unfolding calculate_format_error by (rule parse_entries_format)
  also have "\<dots> \<longleftrightarrow> (1 \<le> n \<and> n \<le> length (record_lines csvText) \<and>
      l = record_lines csvText ! (n - 1) \<and> match_line l = None \<and>
      (\<forall>j < n - 1. \<exists>e. parse_line j (record_lines csvText ! j) = Inr e))"
    (is "?L \<longleftrightarrow> ?R")
  proof
    assume ?L
    then obtain i where "i < length (record_lines csvText)" "n = i + 1"
      "l = record_lines csvText ! i" "match_line l = None"
      "\<forall>j < i. \<exists>e. parse_line j (record_lines csvText ! j) = Inr e" by auto
    then show ?R by simp
  next
    assume r: ?R
    then have "n - 1 < length (record_lines csvText) \<and> n = 0 + (n - 1) + 1 \<and>
      l = record_lines csvText ! (n - 1) \<and> match_line l = None \<and>
      (\<forall>j < n - 1. \<exists>e. parse_line (0 + j) (record_lines csvText ! j) = Inr e)" by auto
    then show ?L by blast
  qed
  finally show ?thesis .
qed

theorem format_error_iff_witness:
  "calculate (scenario1 @ [LF] @ ascii ''2020-01-01,2020-01-31'') =
     Inl (CsvFormatError 2 (ascii ''2020-01-01,2020-01-31'')) \<and>
   record_lines (scenario1 @ [LF] @ ascii ''2020-01-01,2020-01-31'') ! (2 - 1) =
     ascii ''2020-01-01,2020-01-31'' \<and>
   match_line (ascii ''2020-01-01,2020-01-31'') = None"
proof -
  let ?t = "scenario1 @ [LF] @ ascii ''2020-01-01,2020-01-31''"
  have ls: "record_lines ?t = [scenario1, ascii ''2020-01-01,2020-01-31'']"
    by (simp add: scenario1_def text_defs)
  have m: "match_line (ascii ''2020-01-01,2020-01-31'') = None"
    by (simp add: text_defs parse_defs)
  have p: "parse_line 0 scenario1 =
    Inr \<lparr>e_role = role_name CLASS, e_start = ascii ''2020-01-01'', e_end = ascii ''2020-01-31''\<rparr>"
    by (simp add: scenario1_def text_defs parse_defs)
  have "1 \<le> (2::nat) \<and> 2 \<le> length (record_lines ?t) \<and>
      ascii ''2020-01-01,2020-01-31'' = record_lines ?t ! (2 - 1) \<and>
      match_line (ascii ''2020-01-01,2020-01-31'') = None \<and>
      (\<forall>j < 2 - 1. \<exists>e. parse_line j (record_lines ?t ! j) = Inr e)"
    unfolding ls using m p by simp
  with format_error_iff [of ?t 2 "ascii ''2020-01-01,2020-01-31''"] ls m show ?thesis
    by simp
qed

theorem format_error_counterexample:
  "calculate ([LF] @ ascii ''2020-01-01,2020-01-31'') =
     Inl (CsvFormatError 1 (ascii ''2020-01-01,2020-01-31'')) \<and>
   split_lines ([LF] @ ascii ''2020-01-01,2020-01-31'') = [[], ascii ''2020-01-01,2020-01-31''] \<and>
   match_line (ascii ''2020-01-01,2020-01-31'') = None \<and>
   calculate (ascii ''X,2020-01-01,2020-01-31'' @ [LF] @ ascii ''2020-01-01,2020-01-31'') =
     Inl (UnknownRoleError (ascii ''X''))"
  by (simp add: calculate_def walk_def text_defs parse_defs)
















section \<open>Active roles of a month\<close>







section \<open>The baseline tier of a role with two covering records\<close>

text \<open>
  Claim C5 at the input \<open>tier_overlap\<close>. For 71 months CLASS is the only active role,
  once a month, at the first tier (1 a year, 0.0833 a month in the trace). In the 72nd
  month, December 2025, two records cover the month: line 65 adds one to the counter for
  each of them, from 71 to 73, and line 69 takes one off, so the tier is chosen from 72 and
  not from the 71 months served before this month. Both candidates of that month get the
  second tier, 1.5 a year: the gains are 0.125 at weight 1 and 0.0625 at weight 0.5.
\<close>

theorem second_tier_after_71_months:
  "allocation_trace tier_overlap =
     Inr (replicate 71 [\<lparr>a_role = CLASS, weight = 1, gain = 833 / 10000\<rparr>] @
          [[\<lparr>a_role = CLASS, weight = 1, gain = 1250 / 10000\<rparr>,
            \<lparr>a_role = CLASS, weight = 1 / 2, gain = 625 / 10000\<rparr>]]) \<and>
   map_sum id monthsServed (final_state tier_overlap CLASS) = Inr 73"
proof -
  have served: "map_sum id monthsServed (final_state tier_overlap CLASS) = Inr 73"
    by (simp add: final_state_def walk_tier_overlap)
  have "map allocations (map (\<lambda>i. \<lparr>ym = indexToYM i,
                     allocations = [\<lparr>a_role = CLASS, weight = 1, gain = 833 / 10000\<rparr>]\<rparr>)
            [24240..24310]) = replicate (length [24240..24310::int]) [\<lparr>a_role = CLASS, weight = 1, gain = 833 / 10000\<rparr>]"
    by (simp only: map_map o_def MonthDetail.simps map_replicate_const)
  with served show ?thesis
    by (simp add: allocation_trace_def walk_tier_overlap del: upto.simps upto_rec_numeral)
qed

end
